theory Spec2Isabelle
  imports Main
begin

section \<open>Element values, memory and pointers\<close>

text \<open>
  The evaluator of \<^verbatim>\<open>cfunc.cpp\<close> is a template over the element type \<^verbatim>\<open>T\<close>
  (\<^verbatim>\<open>double\<close>, \<^verbatim>\<open>long double\<close>, \<^verbatim>\<open>mppp::real128\<close>, \<^verbatim>\<open>mppp::real\<close>).
  A slot of memory holding one element is either not constructed (raw memory of an
  array of \<^verbatim>\<open>mppp::real\<close>, or indeterminate memory), a NaN carrying a precision
  (what \<^verbatim>\<open>set_prec\<close> leaves behind), or a number with a precision tag and a payload.
  For the fixed-width element types the tag is never inspected by the code.
\<close>

datatype 'v slot = Unconstructed | NaN nat | Num nat 'v

fun slot_prec :: "'v slot \<Rightarrow> nat option" where
  "slot_prec Unconstructed = None"
| "slot_prec (NaN p) = Some p"
| "slot_prec (Num p v) = Some p"

text \<open>
  Memory is split into regions: the four scratch vectors \<^verbatim>\<open>buf_in\<close>, \<^verbatim>\<open>buf_out\<close>,
  \<^verbatim>\<open>buf_pars\<close>, \<^verbatim>\<open>buf_time\<close> owned by the closure, and the memory blocks behind
  NumPy arrays. A pointer is null, a region with an element offset, or the result of
  arithmetic on a null pointer (undefined behaviour in C++, kept as \<open>Invalid\<close>).
\<close>

datatype sbuf = Buf_in | Buf_out | Buf_pars | Buf_time

datatype region = Scratch sbuf | Npy nat

datatype ptr = Null | Invalid | Ptr region int

fun ptr_add :: "ptr \<Rightarrow> int \<Rightarrow> ptr" where
  "ptr_add (Ptr r off) k = Ptr r (off + k)"
| "ptr_add Null k = (if k = 0 then Null else Invalid)"
| "ptr_add Invalid k = Invalid"

text \<open>The four compiled entry points, as they are invoked: the pointer arguments
  (output, input, parameters, time) and, for the strided variants, the stride.\<close>

datatype kcall =
    Scal ptr ptr ptr ptr
  | Batch ptr ptr ptr ptr
  | Scal_s ptr ptr ptr ptr nat
  | Batch_s ptr ptr ptr ptr nat

text \<open>
  The state threaded through a call: the NumPy heap (block, offset), the allocation
  counter for fresh blocks, the scratch vectors, and two ghost fields: the log of kernel
  invocations and the set of heap slots stored to.
\<close>

record 'v state =
  heap :: "nat \<Rightarrow> int \<Rightarrow> 'v slot"
  next_block :: nat
  scratch :: "sbuf \<Rightarrow> 'v slot list"
  klog :: "kcall list"
  written :: "(nat \<times> int) set"

fun load :: "'v state \<Rightarrow> ptr \<Rightarrow> 'v slot" where
  "load st (Ptr (Npy b) off) = heap st b off"
| "load st (Ptr (Scratch s) off) =
     (if 0 \<le> off \<and> nat off < length (scratch st s) then scratch st s ! nat off
      else Unconstructed)"
| "load st Null = Unconstructed"
| "load st Invalid = Unconstructed"

fun store :: "ptr \<Rightarrow> 'v slot \<Rightarrow> 'v state \<Rightarrow> 'v state" where
  "store (Ptr (Npy b) off) v st =
     st\<lparr>heap := (heap st)(b := (heap st b)(off := v)),
        written := insert (b, off) (written st)\<rparr>"
| "store (Ptr (Scratch s) off) v st =
     (if 0 \<le> off \<and> nat off < length (scratch st s)
      then st\<lparr>scratch := (scratch st)(s := (scratch st s)[nat off := v])\<rparr>
      else st)"
| "store Null v st = st"
| "store Invalid v st = st"

section \<open>The compiled function object\<close>

text \<open>
  A kernel is given by the function it computes: from the values of the variables, of the
  parameters and of the time (empty when the function is not time-dependent), all
  flattened lane-minor, to the value of output slot \<open>k\<close>.
\<close>

type_synonym 'v kfun = "'v slot list \<Rightarrow> 'v slot list \<Rightarrow> 'v slot list \<Rightarrow> nat \<Rightarrow> 'v slot"

text \<open>The immutable captures of the closure returned by \<^verbatim>\<open>expose_add_cfunc_impl\<close>;
  \<open>dt\<close> is \<^verbatim>\<open>get_dtype<T>()\<close> and \<open>is_real\<close> is \<^verbatim>\<open>std::is_same_v<T, mppp::real>\<close>.\<close>

record 'v cfunc =
  dt :: nat
  is_real :: bool
  simd_size :: nat
  nparams :: nat
  is_time_dependent :: bool
  nouts :: nat
  nvars :: nat
  prec :: nat
  fptr_scal :: "'v kfun"
  fptr_batch :: "'v kfun"
  fptr_scal_s :: "'v kfun"
  fptr_batch_s :: "'v kfun"

text \<open>
  Modelled from the spec: the kernel ABI (section 6); the kernels are compiled by heyoka's
  \<^verbatim>\<open>add_cfunc\<close>, which is not part of the repository. A kernel of width \<open>w\<close> called with
  stride \<open>s\<close> reads variable \<open>i\<close>, lane \<open>l\<close> at \<open>inp + i*s + l\<close>, parameter \<open>i\<close>, lane \<open>l\<close> at
  \<open>par + i*s + l\<close>, the time of lane \<open>l\<close> at \<open>tm + l\<close> (only when the function is
  time-dependent), and writes output \<open>j\<close>, lane \<open>l\<close> to \<open>out + j*s + l\<close>. The dense variants
  are the case \<open>s = w\<close>. The kernels require the output range not to overlap what they
  read; all reads are taken from the state before the call.
\<close>

definition gather_ptr :: "'v state \<Rightarrow> ptr \<Rightarrow> nat \<Rightarrow> nat \<Rightarrow> nat \<Rightarrow> 'v slot list" where
  "gather_ptr st p n w s =
     concat (map (\<lambda>i. map (\<lambda>l. load st (ptr_add p (int (i * s + l)))) [0..<w]) [0..<n])"

definition run_kernel ::
  "'v cfunc \<Rightarrow> 'v kfun \<Rightarrow> nat \<Rightarrow> nat \<Rightarrow> ptr \<Rightarrow> ptr \<Rightarrow> ptr \<Rightarrow> ptr \<Rightarrow> 'v state \<Rightarrow> 'v state" where
  "run_kernel ev f w s out inp par tm st =
     (let ins = gather_ptr st inp (nvars ev) w s;
          ps = gather_ptr st par (nparams ev) w s;
          ts = (if is_time_dependent ev then gather_ptr st tm 1 w s else [])
      in fold (\<lambda>j. fold (\<lambda>l. store (ptr_add out (int (j * s + l))) (f ins ps ts (j * w + l)))
                 [0..<w])
           [0..<nouts ev] st)"

fun invoke :: "'v cfunc \<Rightarrow> kcall \<Rightarrow> 'v state \<Rightarrow> 'v state" where
  "invoke ev (Scal out inp par tm) st =
     run_kernel ev (fptr_scal ev) 1 1 out inp par tm (st\<lparr>klog := klog st @ [Scal out inp par tm]\<rparr>)"
| "invoke ev (Batch out inp par tm) st =
     run_kernel ev (fptr_batch ev) (simd_size ev) (simd_size ev) out inp par tm
       (st\<lparr>klog := klog st @ [Batch out inp par tm]\<rparr>)"
| "invoke ev (Scal_s out inp par tm s) st =
     run_kernel ev (fptr_scal_s ev) 1 s out inp par tm
       (st\<lparr>klog := klog st @ [Scal_s out inp par tm s]\<rparr>)"
| "invoke ev (Batch_s out inp par tm s) st =
     run_kernel ev (fptr_batch_s ev) (simd_size ev) s out inp par tm
       (st\<lparr>klog := klog st @ [Batch_s out inp par tm s]\<rparr>)"

section \<open>Batch evaluation, zero-copy path\<close>

text \<open>Lines 530--568 of \<^verbatim>\<open>cfunc.cpp\<close>, from the cached data pointers on.\<close>

definition multi_zero_copy ::
  "'v cfunc \<Rightarrow> ptr \<Rightarrow> ptr \<Rightarrow> ptr \<Rightarrow> ptr \<Rightarrow> nat \<Rightarrow> 'v state \<Rightarrow> 'v state" where
  "multi_zero_copy ev out_data in_data par_data time_data nevals st =
     (let ss_size = simd_size ev;
          n_simd_blocks = nevals div ss_size;
          stride = nevals;
          read_inputs = (nvars ev > 0);
          read_pars = (nparams ev > 0);
          read_time = is_time_dependent ev;
          st1 = fold (\<lambda>k. let start_offset = int (k * ss_size) in
                   invoke ev (Batch_s (ptr_add out_data start_offset)
                     (if read_inputs then ptr_add in_data start_offset else Null)
                     (if read_pars then ptr_add par_data start_offset else Null)
                     (if read_time then ptr_add time_data start_offset else Null) stride))
                 [0..<n_simd_blocks] st
      in fold (\<lambda>k. invoke ev (Scal_s (ptr_add out_data (int k))
                     (if read_inputs then ptr_add in_data (int k) else Null)
                     (if read_pars then ptr_add par_data (int k) else Null)
                     (if read_time then ptr_add time_data (int k) else Null) stride))
           [n_simd_blocks * ss_size..<nevals] st1)"

section \<open>NumPy arrays\<close>

text \<open>
  A normalized view of a NumPy array: the block it points into, the offset of its first
  element, shape and strides (in elements, not bytes), the type number of its dtype and
  the writeable flag.
\<close>

record arr =
  base :: nat
  offset :: int
  shape :: "nat list"
  strides :: "int list"
  dtype :: nat
  writeable :: bool

definition ndim :: "arr \<Rightarrow> nat" where
  "ndim a = length (shape a)"

definition arr_data :: "arr \<Rightarrow> ptr" where
  "arr_data a = Ptr (Npy (base a)) (offset a)"

text \<open>\<^verbatim>\<open>unchecked<T, 1>()(i)\<close> and \<^verbatim>\<open>unchecked<T, 2>()(i, j)\<close>: no bounds check, the strides
  of the array are honoured.\<close>

definition elem1 :: "arr \<Rightarrow> nat \<Rightarrow> ptr" where
  "elem1 a i = ptr_add (arr_data a) (int i * strides a ! 0)"

definition elem2 :: "arr \<Rightarrow> nat \<Rightarrow> nat \<Rightarrow> ptr" where
  "elem2 a i j = ptr_add (arr_data a) (int i * strides a ! 0 + int j * strides a ! 1)"

text \<open>The offsets of all elements relative to the first one, in row-major index order.\<close>

fun offsets :: "nat list \<Rightarrow> int list \<Rightarrow> int list" where
  "offsets [] ss = [0]"
| "offsets (n # ns) [] = []"
| "offsets (n # ns) (s # ss) =
     concat (map (\<lambda>i. map (\<lambda>off. int i * s + off) (offsets ns ss)) [0..<n])"

definition arr_ptrs :: "arr \<Rightarrow> ptr list" where
  "arr_ptrs a = map (ptr_add (arr_data a)) (offsets (shape a) (strides a))"

definition contents :: "'v state \<Rightarrow> arr \<Rightarrow> 'v slot list" where
  "contents st a = map (load st) (arr_ptrs a)"

fun c_strides :: "nat list \<Rightarrow> int list" where
  "c_strides [] = []"
| "c_strides (n # ns) = int (prod_list ns) # c_strides ns"

text \<open>\<^verbatim>\<open>py::array(dtype, shape)\<close>: a fresh block, C order, writeable; its contents are
  whatever the block holds.\<close>

definition new_array :: "nat \<Rightarrow> nat list \<Rightarrow> 'v state \<Rightarrow> arr \<times> 'v state" where
  "new_array d shp st =
     (\<lparr>base = next_block st, offset = 0, shape = shp, strides = c_strides shp,
       dtype = d, writeable = True\<rparr>,
      st\<lparr>next_block := Suc (next_block st)\<rparr>)"

datatype error =
    UnsafeCast
  | MissingParameters
  | MissingTime
  | InvalidDimensionality
  | BadNumericCast
  | SizeMismatch
  | BatchSizeMismatch
  | DimensionMismatch
  | NonWritableOutput
  | ScalarTimeExpected
  | InvalidTimeDimensionality
  | PrecisionMismatch
  | UnsupportedBatchWidth

text \<open>NumPy's casting rule and element conversion, which belong to the host array
  library.\<close>

record 'v env =
  can_cast :: "nat \<Rightarrow> nat \<Rightarrow> bool"
  cast_elem :: "nat \<Rightarrow> nat \<Rightarrow> 'v slot \<Rightarrow> 'v slot"

text \<open>\<^verbatim>\<open>a.astype(dtype, casting="safe")\<close>: raises when the cast is not safe, otherwise
  always returns a freshly allocated, writeable array of the same shape (taken here in
  C order) holding the converted elements.\<close>

definition astype :: "'v env \<Rightarrow> nat \<Rightarrow> arr \<Rightarrow> 'v state \<Rightarrow> error + (arr \<times> 'v state)" where
  "astype env d a st =
     (if \<not> can_cast env (dtype a) d then Inl UnsafeCast
      else (let (b, st1) = new_array d (shape a) st
            in Inr (b, fold (\<lambda>(src, dst). store dst (cast_elem env (dtype a) d (load st src)))
                         (zip (arr_ptrs a) (arr_ptrs b)) st1)))"

text \<open>
  Modelled from the spec: \<^verbatim>\<open>is_npy_array_carray\<close> (declared in \<^verbatim>\<open>common_utils.hpp\<close>, not
  in the sources): the array is contiguous in the C-style, densely packed layout.
\<close>

definition is_npy_array_carray :: "arr \<Rightarrow> bool" where
  "is_npy_array_carray a = (strides a = c_strides (shape a))"

text \<open>
  Modelled from the spec: \<^verbatim>\<open>may_share_memory\<close> (declared in \<^verbatim>\<open>common_utils.hpp\<close>, not
  in the sources): true when some pair of the given arrays may share a memory region,
  decided on the memory bounds of the two arrays.
\<close>

definition extent_lo :: "arr \<Rightarrow> int" where
  "extent_lo a = offset a + sum_list (map (\<lambda>(n, s). min 0 ((int n - 1) * s)) (zip (shape a) (strides a)))"

definition extent_hi :: "arr \<Rightarrow> int" where
  "extent_hi a = offset a + sum_list (map (\<lambda>(n, s). max 0 ((int n - 1) * s)) (zip (shape a) (strides a)))"

definition may_share2 :: "arr \<Rightarrow> arr \<Rightarrow> bool" where
  "may_share2 a b =
     (0 < prod_list (shape a) \<and> 0 < prod_list (shape b) \<and> base a = base b
      \<and> extent_lo a \<le> extent_hi b \<and> extent_lo b \<le> extent_hi a)"

fun may_share_memory :: "arr list \<Rightarrow> bool" where
  "may_share_memory [] = False"
| "may_share_memory (a # bs) = (list_ex (may_share2 a) bs \<or> may_share_memory bs)"

text \<open>
  Modelled from the spec: \<^verbatim>\<open>pyreal_check_array\<close> and \<^verbatim>\<open>pyreal_ensure_array\<close> (declared in
  \<^verbatim>\<open>expose_real.hpp\<close>, not in the sources). The first validates that every slot is a
  constructed value at the working precision; the second makes every slot of the array a
  constructed value at the working precision, storing to the slots that are not.
\<close>

definition pyreal_check_array :: "'v state \<Rightarrow> arr \<Rightarrow> nat \<Rightarrow> bool" where
  "pyreal_check_array st a p = list_all (\<lambda>q. slot_prec (load st q) = Some p) (arr_ptrs a)"

fun ensure_slot :: "nat \<Rightarrow> 'v::zero slot \<Rightarrow> 'v slot" where
  "ensure_slot p Unconstructed = Num p 0"
| "ensure_slot p (NaN q) = NaN p"
| "ensure_slot p (Num q v) = Num p v"

definition pyreal_ensure_array :: "arr \<Rightarrow> nat \<Rightarrow> 'v::zero state \<Rightarrow> 'v state" where
  "pyreal_ensure_array a p st =
     fold (\<lambda>q s. if slot_prec (load s q) = Some p then s else store q (ensure_slot p (load s q)) s)
       (arr_ptrs a) st"

section \<open>Batch evaluation, buffered path\<close>

definition copy_slot :: "ptr \<Rightarrow> ptr \<Rightarrow> 'v state \<Rightarrow> 'v state" where
  "copy_slot dst src st = store dst (load st src) st"

definition buf_ptr :: "sbuf \<Rightarrow> ptr" where
  "buf_ptr b = Ptr (Scratch b) 0"

text \<open>One SIMD block of lines 575--612: gather, dense batch kernel, scatter.\<close>

definition buffered_block ::
  "'v cfunc \<Rightarrow> arr \<Rightarrow> arr \<Rightarrow> arr option \<Rightarrow> arr option \<Rightarrow> nat \<Rightarrow> 'v state \<Rightarrow> 'v state" where
  "buffered_block ev inputs outputs pars time k st =
     (let ss_size = simd_size ev;
          st1 = fold (\<lambda>i. fold (\<lambda>j. copy_slot (ptr_add (buf_ptr Buf_in) (int (i * ss_size + j)))
                                     (elem2 inputs i (k * ss_size + j))) [0..<ss_size])
                  [0..<nvars ev] st;
          st2 = (case pars of
                   Some u_pars \<Rightarrow>
                     fold (\<lambda>i. fold (\<lambda>j. copy_slot (ptr_add (buf_ptr Buf_pars) (int (i * ss_size + j)))
                                         (elem2 u_pars i (k * ss_size + j))) [0..<ss_size])
                       [0..<nparams ev] st1
                 | None \<Rightarrow> st1);
          st3 = (case time of
                   Some u_time \<Rightarrow>
                     fold (\<lambda>j. copy_slot (ptr_add (buf_ptr Buf_time) (int j))
                                 (elem1 u_time (k * ss_size + j))) [0..<ss_size] st2
                 | None \<Rightarrow> st2);
          st4 = invoke ev (Batch (buf_ptr Buf_out) (buf_ptr Buf_in) (buf_ptr Buf_pars)
                             (buf_ptr Buf_time)) st3
      in fold (\<lambda>i. fold (\<lambda>j. copy_slot (elem2 outputs i (k * ss_size + j))
                                (ptr_add (buf_ptr Buf_out) (int (i * ss_size + j)))) [0..<ss_size])
           [0..<nouts ev] st4)"

text \<open>One remainder point of lines 615--639.\<close>

definition buffered_point ::
  "'v cfunc \<Rightarrow> arr \<Rightarrow> arr \<Rightarrow> arr option \<Rightarrow> arr option \<Rightarrow> nat \<Rightarrow> 'v state \<Rightarrow> 'v state" where
  "buffered_point ev inputs outputs pars time k st =
     (let st1 = fold (\<lambda>i. copy_slot (ptr_add (buf_ptr Buf_in) (int i)) (elem2 inputs i k))
                  [0..<nvars ev] st;
          st2 = (case pars of
                   Some u_pars \<Rightarrow>
                     fold (\<lambda>i. copy_slot (ptr_add (buf_ptr Buf_pars) (int i)) (elem2 u_pars i k))
                       [0..<nparams ev] st1
                 | None \<Rightarrow> st1);
          st3 = (case time of
                   Some u_time \<Rightarrow> copy_slot (ptr_add (buf_ptr Buf_time) 0) (elem1 u_time k) st2
                 | None \<Rightarrow> st2);
          st4 = invoke ev (Scal (buf_ptr Buf_out) (buf_ptr Buf_in) (buf_ptr Buf_pars)
                             (buf_ptr Buf_time)) st3
      in fold (\<lambda>i. copy_slot (elem2 outputs i k) (ptr_add (buf_ptr Buf_out) (int i)))
           [0..<nouts ev] st4)"

definition multi_buffered ::
  "'v cfunc \<Rightarrow> arr \<Rightarrow> arr \<Rightarrow> arr option \<Rightarrow> arr option \<Rightarrow> nat \<Rightarrow> 'v state \<Rightarrow> 'v state" where
  "multi_buffered ev inputs outputs pars time nevals st =
     (let ss_size = simd_size ev;
          n_simd_blocks = nevals div ss_size;
          st1 = fold (buffered_block ev inputs outputs pars time) [0..<n_simd_blocks] st
      in fold (buffered_point ev inputs outputs pars time) [n_simd_blocks * ss_size..<nevals] st1)"

text \<open>The \<^verbatim>\<open>multi_eval\<close> branch, lines 520--640.\<close>

definition data_opt :: "arr option \<Rightarrow> ptr" where
  "data_opt a = (case a of Some x \<Rightarrow> arr_data x | None \<Rightarrow> Null)"

definition eval_multi ::
  "'v cfunc \<Rightarrow> bool \<Rightarrow> arr \<Rightarrow> arr \<Rightarrow> arr option \<Rightarrow> arr option \<Rightarrow> 'v state \<Rightarrow> 'v state" where
  "eval_multi ev zero_copy inputs outputs pars time st =
     (let nevals = shape inputs ! 1
      in if zero_copy
         then multi_zero_copy ev (arr_data outputs) (arr_data inputs) (data_opt pars)
                (data_opt time) nevals st
         else multi_buffered ev inputs outputs pars time nevals st)"

section \<open>Single evaluation\<close>

text \<open>Lines 641--678.\<close>

definition single_buffered ::
  "'v cfunc \<Rightarrow> arr \<Rightarrow> arr \<Rightarrow> arr option \<Rightarrow> arr option \<Rightarrow> 'v state \<Rightarrow> 'v state" where
  "single_buffered ev inputs outputs pars time st =
     (let st1 = fold (\<lambda>i. copy_slot (ptr_add (buf_ptr Buf_in) (int i)) (elem1 inputs i))
                  [0..<nvars ev] st;
          st2 = (case pars of
                   Some u_pars \<Rightarrow>
                     fold (\<lambda>i. copy_slot (ptr_add (buf_ptr Buf_pars) (int i)) (elem1 u_pars i))
                       [0..<nparams ev] st1
                 | None \<Rightarrow> st1);
          st3 = (case time of
                   Some u_time \<Rightarrow> copy_slot (ptr_add (buf_ptr Buf_time) 0) (elem1 u_time 0) st2
                 | None \<Rightarrow> st2);
          st4 = invoke ev (Scal (buf_ptr Buf_out) (buf_ptr Buf_in) (buf_ptr Buf_pars)
                             (buf_ptr Buf_time)) st3
      in fold (\<lambda>i. copy_slot (elem1 outputs i) (ptr_add (buf_ptr Buf_out) (int i)))
           [0..<nouts ev] st4)"

definition eval_single ::
  "'v cfunc \<Rightarrow> bool \<Rightarrow> arr \<Rightarrow> arr \<Rightarrow> arr option \<Rightarrow> arr option \<Rightarrow> 'v state \<Rightarrow> 'v state" where
  "eval_single ev zero_copy inputs outputs pars time st =
     (if zero_copy
      then invoke ev (Scal (arr_data outputs) (arr_data inputs) (data_opt pars) (data_opt time)) st
      else single_buffered ev inputs outputs pars time st)"

section \<open>Argument conversion and validation\<close>

text \<open>The time argument is a \<^verbatim>\<open>std::variant<T, py::iterable>\<close>. The other arguments are
  taken as arrays already (\<^verbatim>\<open>py::array\<close> of an array is that array).\<close>

datatype 'v time_arg = TimeScalar "'v slot" | TimeIterable arr

fun holds_scalar :: "'v time_arg option \<Rightarrow> bool" where
  "holds_scalar (Some (TimeScalar v)) = True"
| "holds_scalar (Some (TimeIterable a)) = False"
| "holds_scalar None = False"

text \<open>Lines 242--256: a scalar time goes through a one-element list into a fresh
  one-dimensional array.\<close>

definition to_time_array :: "'v cfunc \<Rightarrow> 'v time_arg \<Rightarrow> 'v state \<Rightarrow> arr \<times> 'v state" where
  "to_time_array ev t st =
     (case t of
        TimeScalar v \<Rightarrow> (let (a, st1) = new_array (dt ev) [1] st in (a, store (arr_data a) v st1))
      | TimeIterable a \<Rightarrow> (a, st))"

text \<open>Lines 259--270: the dtype of each array is enforced by a safe cast.\<close>

definition enforce_dtype ::
  "'v env \<Rightarrow> 'v cfunc \<Rightarrow> arr \<Rightarrow> 'v state \<Rightarrow> error + (arr \<times> 'v state)" where
  "enforce_dtype env ev a st =
     (if dtype a \<noteq> dt ev then astype env (dt ev) a st else Inr (a, st))"

definition enforce_dtype_opt ::
  "'v env \<Rightarrow> 'v cfunc \<Rightarrow> arr option \<Rightarrow> 'v state \<Rightarrow> error + (arr option \<times> 'v state)" where
  "enforce_dtype_opt env ev ao st =
     (case ao of
        None \<Rightarrow> Inr (None, st)
      | Some a \<Rightarrow>
          (case enforce_dtype env ev a st of
             Inl e \<Rightarrow> Inl e
           | Inr (b, st1) \<Rightarrow> Inr (Some b, st1)))"

text \<open>Lines 272--319.\<close>

definition check_head ::
  "'v cfunc \<Rightarrow> arr \<Rightarrow> arr option \<Rightarrow> arr option \<Rightarrow> 'v time_arg option \<Rightarrow> error option" where
  "check_head ev inputs pars time time_ob =
     (if nparams ev > 0 \<and> pars = None then Some MissingParameters
      else if is_time_dependent ev \<and> time = None then Some MissingTime
      else if ndim inputs \<noteq> 1 \<and> ndim inputs \<noteq> 2 then Some InvalidDimensionality
      else if \<not> shape inputs ! 0 < 2 ^ 32 then Some BadNumericCast
      else if shape inputs ! 0 \<noteq> nvars ev then Some SizeMismatch
      else if time \<noteq> None \<and> \<not> (ndim inputs = 2) \<and> \<not> holds_scalar time_ob
        then Some ScalarTimeExpected
      else None)"

text \<open>Lines 322--379.\<close>

definition prepare_outputs ::
  "'v cfunc \<Rightarrow> arr \<Rightarrow> arr option \<Rightarrow> 'v state \<Rightarrow> (error + arr) \<times> 'v state" where
  "prepare_outputs ev inputs outputs_opt st =
     (let multi_eval = (ndim inputs = 2)
      in case outputs_opt of
           Some out \<Rightarrow>
             (if \<not> writeable out then (Inl NonWritableOutput, st)
              else if ndim out \<noteq> ndim inputs then (Inl DimensionMismatch, st)
              else if \<not> shape out ! 0 < 2 ^ 32 then (Inl BadNumericCast, st)
              else if shape out ! 0 \<noteq> nouts ev then (Inl SizeMismatch, st)
              else if multi_eval \<and> shape out ! 1 \<noteq> shape inputs ! 1
                then (Inl BatchSizeMismatch, st)
              else (Inr out, st))
         | None \<Rightarrow>
             (let (a, st1) = new_array (dtype inputs)
                               (if multi_eval then [nouts ev, shape inputs ! 1] else [nouts ev]) st
              in (Inr a, st1)))"

text \<open>Lines 395--442.\<close>

definition check_pars :: "'v cfunc \<Rightarrow> arr \<Rightarrow> arr option \<Rightarrow> 'v state \<Rightarrow> error option" where
  "check_pars ev inputs pars st =
     (case pars of
        None \<Rightarrow> None
      | Some p \<Rightarrow>
          (if ndim p \<noteq> ndim inputs then Some DimensionMismatch
           else if \<not> shape p ! 0 < 2 ^ 32 then Some BadNumericCast
           else if shape p ! 0 \<noteq> nparams ev then Some SizeMismatch
           else if ndim inputs = 2 \<and> shape p ! 1 \<noteq> shape inputs ! 1 then Some BatchSizeMismatch
           else if is_real ev \<and> \<not> pyreal_check_array st p (prec ev) then Some PrecisionMismatch
           else None))"

text \<open>Lines 445--486.\<close>

definition check_time :: "'v cfunc \<Rightarrow> arr \<Rightarrow> arr option \<Rightarrow> 'v state \<Rightarrow> error option" where
  "check_time ev inputs time st =
     (case time of
        None \<Rightarrow> None
      | Some t \<Rightarrow>
          (if ndim t \<noteq> 1 then Some InvalidTimeDimensionality
           else if ndim inputs = 2 \<and> shape t ! 0 \<noteq> shape inputs ! 1 then Some BatchSizeMismatch
           else if is_real ev \<and> \<not> pyreal_check_array st t (prec ev) then Some PrecisionMismatch
           else None))"

text \<open>Lines 490--511.\<close>

definition zero_copy :: "arr \<Rightarrow> arr \<Rightarrow> arr option \<Rightarrow> arr option \<Rightarrow> bool" where
  "zero_copy inputs outputs pars time =
     (if is_npy_array_carray inputs \<and> is_npy_array_carray outputs
         \<and> (case pars of None \<Rightarrow> True | Some p \<Rightarrow> is_npy_array_carray p)
         \<and> (case time of None \<Rightarrow> True | Some t \<Rightarrow> is_npy_array_carray t)
      then (let maybe_share_memory =
                  (case pars of
                     Some p \<Rightarrow> (case time of
                                  Some t \<Rightarrow> may_share_memory [inputs, outputs, p, t]
                                | None \<Rightarrow> may_share_memory [inputs, outputs, p])
                   | None \<Rightarrow> (case time of
                                Some t \<Rightarrow> may_share_memory [inputs, outputs, t]
                              | None \<Rightarrow> may_share_memory [inputs, outputs]))
            in if maybe_share_memory then False else True)
      else False)"

section \<open>The evaluation call\<close>

text \<open>Lines 381--680, after the outputs array has been prepared. For \<^verbatim>\<open>mppp::real\<close> the
  inputs are checked and the outputs normalized before the parameters and the time are
  validated.\<close>

definition call_tail ::
  "'v::zero cfunc \<Rightarrow> arr \<Rightarrow> arr \<Rightarrow> arr option \<Rightarrow> arr option \<Rightarrow> 'v state
     \<Rightarrow> (error + arr) \<times> 'v state" where
  "call_tail ev inputs outputs pars time st =
     (if is_real ev \<and> \<not> pyreal_check_array st inputs (prec ev) then (Inl PrecisionMismatch, st)
      else (let st1 = (if is_real ev then pyreal_ensure_array outputs (prec ev) st else st)
            in case check_pars ev inputs pars st1 of
                 Some e \<Rightarrow> (Inl e, st1)
               | None \<Rightarrow>
                   (case check_time ev inputs time st1 of
                      Some e \<Rightarrow> (Inl e, st1)
                    | None \<Rightarrow>
                        (let zc = zero_copy inputs outputs pars time
                         in (Inr outputs,
                             if ndim inputs = 2
                             then eval_multi ev zc inputs outputs pars time st1
                             else eval_single ev zc inputs outputs pars time st1)))))"

text \<open>Lines 237--270: the arguments as arrays of the dtype of \<^verbatim>\<open>T\<close>.\<close>

definition convert_args ::
  "'v env \<Rightarrow> 'v cfunc \<Rightarrow> arr \<Rightarrow> arr option \<Rightarrow> arr option \<Rightarrow> 'v time_arg option \<Rightarrow> 'v state
     \<Rightarrow> (error \<times> 'v state) + (arr \<times> arr option \<times> arr option \<times> arr option \<times> 'v state)" where
  "convert_args env ev inputs_ob outputs_ob pars_ob time_ob st =
     (let (time0, st0) = (case time_ob of
                            None \<Rightarrow> (None, st)
                          | Some t \<Rightarrow> (let (a, s) = to_time_array ev t st in (Some a, s)))
      in case enforce_dtype env ev inputs_ob st0 of
           Inl e \<Rightarrow> Inl (e, st0)
         | Inr (inputs, st1) \<Rightarrow>
        (case enforce_dtype_opt env ev outputs_ob st1 of
           Inl e \<Rightarrow> Inl (e, st1)
         | Inr (outputs_opt, st2) \<Rightarrow>
        (case enforce_dtype_opt env ev pars_ob st2 of
           Inl e \<Rightarrow> Inl (e, st2)
         | Inr (pars, st3) \<Rightarrow>
        (case enforce_dtype_opt env ev time0 st3 of
           Inl e \<Rightarrow> Inl (e, st3)
         | Inr (time, st4) \<Rightarrow> Inr (inputs, outputs_opt, pars, time, st4)))))"

text \<open>The closure, lines 229--681.\<close>

definition call ::
  "'v env \<Rightarrow> 'v::zero cfunc \<Rightarrow> arr \<Rightarrow> arr option \<Rightarrow> arr option \<Rightarrow> 'v time_arg option \<Rightarrow> 'v state
     \<Rightarrow> (error + arr) \<times> 'v state" where
  "call env ev inputs_ob outputs_ob pars_ob time_ob st =
     (case convert_args env ev inputs_ob outputs_ob pars_ob time_ob st of
        Inl (e, st0) \<Rightarrow> (Inl e, st0)
      | Inr (inputs, outputs_opt, pars, time, st4) \<Rightarrow>
          (case check_head ev inputs pars time time_ob of
             Some e \<Rightarrow> (Inl e, st4)
           | None \<Rightarrow>
               (case prepare_outputs ev inputs outputs_opt st4 of
                  (Inl e, st5) \<Rightarrow> (Inl e, st5)
                | (Inr outputs, st5) \<Rightarrow> call_tail ev inputs outputs pars time st5)))"

section \<open>Construction\<close>

text \<open>Lines 95--223: the SIMD width, the restriction of widths above one to \<^verbatim>\<open>double\<close>,
  and the scratch vectors. \<^verbatim>\<open>resize\<close> value-initializes the slots; for \<^verbatim>\<open>mppp::real\<close>
  each slot then gets the working precision through \<^verbatim>\<open>set_prec\<close>, which leaves a NaN.
  The sizes \<^verbatim>\<open>nvars * simd_size\<close>, \<^verbatim>\<open>nouts * simd_size\<close> and \<^verbatim>\<open>nparams * simd_size\<close> are
  products of two \<^verbatim>\<open>std::uint32_t\<close>, computed modulo \<open>2 ^ 32\<close> before they are widened to
  the size type of the vector.\<close>

definition resolve_simd_size :: "bool \<Rightarrow> nat option \<Rightarrow> nat \<Rightarrow> error + nat" where
  "resolve_simd_size is_double batch_size recommended_simd_size =
     (let simd_size = (case batch_size of Some b \<Rightarrow> b | None \<Rightarrow> recommended_simd_size)
      in if \<not> is_double \<and> simd_size > 1 then Inl UnsupportedBatchWidth else Inr simd_size)"

definition init_slot :: "'v::zero cfunc \<Rightarrow> 'v slot" where
  "init_slot ev = (if is_real ev then NaN (prec ev) else Num 0 0)"

definition init_scratch :: "'v::zero cfunc \<Rightarrow> sbuf \<Rightarrow> 'v slot list" where
  "init_scratch ev b =
     (case b of
        Buf_in \<Rightarrow> replicate ((nvars ev * simd_size ev) mod 2 ^ 32) (init_slot ev)
      | Buf_out \<Rightarrow> replicate ((nouts ev * simd_size ev) mod 2 ^ 32) (init_slot ev)
      | Buf_pars \<Rightarrow> replicate ((nparams ev * simd_size ev) mod 2 ^ 32) (init_slot ev)
      | Buf_time \<Rightarrow> replicate (simd_size ev) (init_slot ev))"

text \<open>The note at lines 192--194: the three products do not overflow, because the overflow
  checks run by heyoka's \<^verbatim>\<open>add_cfunc\<close> while the function was compiled in batch mode did not
  raise. This is a guarantee of the compilation, which is not part of the repository.\<close>

definition sizes_fit :: "'v cfunc \<Rightarrow> bool" where
  "sizes_fit ev =
     (nvars ev * simd_size ev < 2 ^ 32 \<and> nouts ev * simd_size ev < 2 ^ 32
      \<and> nparams ev * simd_size ev < 2 ^ 32)"

section \<open>Reading the kernel log; a concrete evaluator\<close>

fun k_out :: "kcall \<Rightarrow> ptr" where
  "k_out (Scal out inp par tm) = out"
| "k_out (Batch out inp par tm) = out"
| "k_out (Scal_s out inp par tm s) = out"
| "k_out (Batch_s out inp par tm s) = out"

fun k_in :: "kcall \<Rightarrow> ptr" where
  "k_in (Scal out inp par tm) = inp"
| "k_in (Batch out inp par tm) = inp"
| "k_in (Scal_s out inp par tm s) = inp"
| "k_in (Batch_s out inp par tm s) = inp"

fun k_par :: "kcall \<Rightarrow> ptr" where
  "k_par (Scal out inp par tm) = par"
| "k_par (Batch out inp par tm) = par"
| "k_par (Scal_s out inp par tm s) = par"
| "k_par (Batch_s out inp par tm s) = par"

fun k_time :: "kcall \<Rightarrow> ptr" where
  "k_time (Scal out inp par tm) = tm"
| "k_time (Batch out inp par tm) = tm"
| "k_time (Scal_s out inp par tm s) = tm"
| "k_time (Batch_s out inp par tm s) = tm"

definition num_val :: "int slot \<Rightarrow> int" where
  "num_val x = (case x of Num p v \<Rightarrow> v | NaN p \<Rightarrow> 0 | Unconstructed \<Rightarrow> 0)"

definition ex_add :: "nat \<Rightarrow> int kfun" where
  "ex_add w ins ps ts k = Num 0 (num_val (ins ! (k mod w)) + num_val (ins ! (w + k mod w)))"

definition ex_cfunc :: "int cfunc" where
  "ex_cfunc = \<lparr>dt = 12, is_real = False, simd_size = 2, nparams = 0, is_time_dependent = False,
     nouts = 1, nvars = 2, prec = 0, fptr_scal = ex_add 1, fptr_batch = ex_add 2,
     fptr_scal_s = ex_add 1, fptr_batch_s = ex_add 2\<rparr>"

definition ex_heap :: "nat \<Rightarrow> int \<Rightarrow> int slot" where
  "ex_heap b off = (if b = 0 then Num 0 (off + 1) else Num 0 0)"

definition ex_state :: "int state" where
  "ex_state = \<lparr>heap = ex_heap, next_block = 2, scratch = init_scratch ex_cfunc, klog = [],
     written = {}\<rparr>"

definition ex_arr :: "nat \<Rightarrow> nat list \<Rightarrow> arr" where
  "ex_arr b shp = \<lparr>base = b, offset = 0, shape = shp, strides = c_strides shp, dtype = 12,
     writeable = True\<rparr>"


definition ex_env :: "int env" where
  "ex_env = \<lparr>can_cast = (\<lambda>a b. a \<le> b), cast_elem = (\<lambda>a b x. x)\<rparr>"

text \<open>The buffers a call supplies, in the order in which they are passed to
  \<^verbatim>\<open>may_share_memory\<close>.\<close>

definition supplied :: "arr \<Rightarrow> arr \<Rightarrow> arr option \<Rightarrow> arr option \<Rightarrow> arr list" where
  "supplied inputs outputs pars time =
     [inputs, outputs] @ (case pars of Some p \<Rightarrow> [p] | None \<Rightarrow> [])
       @ (case time of Some t \<Rightarrow> [t] | None \<Rightarrow> [])"

definition ex_add_time :: "int kfun" where
  "ex_add_time ins ps ts k = Num 0 (num_val (ins ! k) + num_val (ts ! k))"

definition ex_td_cfunc :: "int cfunc" where
  "ex_td_cfunc = \<lparr>dt = 12, is_real = False, simd_size = 1, nparams = 0, is_time_dependent = True,
     nouts = 1, nvars = 1, prec = 0, fptr_scal = ex_add_time, fptr_batch = ex_add_time,
     fptr_scal_s = ex_add_time, fptr_batch_s = ex_add_time\<rparr>"

definition ex_td_state :: "int state" where
  "ex_td_state = \<lparr>heap = ex_heap, next_block = 2, scratch = init_scratch ex_td_cfunc, klog = [],
     written = {}\<rparr>"

section \<open>Frames and invariants used in the statements\<close>

fun ptr_region :: "ptr \<Rightarrow> region option" where
  "ptr_region (Ptr r off) = Some r"
| "ptr_region Null = None"
| "ptr_region Invalid = None"

text \<open>\<open>only_stores R st st'\<close>: going from \<open>st\<close> to \<open>st'\<close> nothing was allocated, no region
  outside \<open>R\<close> was stored to, and no scratch vector changed its length.\<close>

definition only_stores :: "region set \<Rightarrow> 'v state \<Rightarrow> 'v state \<Rightarrow> bool" where
  "only_stores R st st' =
     (next_block st' = next_block st
      \<and> (\<forall>b. Npy b \<notin> R \<longrightarrow> heap st' b = heap st b)
      \<and> (\<forall>s. Scratch s \<notin> R \<longrightarrow> scratch st' s = scratch st s)
      \<and> (\<forall>s. length (scratch st' s) = length (scratch st s)))"

text \<open>\<open>grows st st'\<close>: going from \<open>st\<close> to \<open>st'\<close> only fresh blocks were allocated and stored
  to; no kernel ran and the scratch vectors are untouched.\<close>

definition grows :: "'v state \<Rightarrow> 'v state \<Rightarrow> bool" where
  "grows st st' =
     (next_block st \<le> next_block st'
      \<and> (\<forall>b. b < next_block st \<longrightarrow> heap st' b = heap st b)
      \<and> scratch st' = scratch st
      \<and> klog st' = klog st)"

text \<open>\<open>conv_of env ev n a b\<close>: \<open>b\<close> is what the dtype enforcement makes of \<open>a\<close> in a state
  whose blocks below \<open>n\<close> existed before the call: \<open>a\<close> itself when it has the dtype of
  \<^verbatim>\<open>T\<close>, otherwise the result of a safe cast, a fresh writeable C-ordered array of the same
  shape.\<close>

definition conv_of :: "'v env \<Rightarrow> 'v cfunc \<Rightarrow> nat \<Rightarrow> arr \<Rightarrow> arr \<Rightarrow> bool" where
  "conv_of env ev n a b =
     (shape b = shape a \<and> dtype b = dt ev
      \<and> (if dtype a = dt ev then b = a
          else can_cast env (dtype a) (dt ev) \<and> n \<le> base b \<and> writeable b \<and> offset b = 0
               \<and> strides b = c_strides (shape a)))"

text \<open>What the construction of the closure guarantees: the counts are 32-bit unsigned
  integers and the SIMD width is not zero (heyoka's \<^verbatim>\<open>add_cfunc\<close> rejects a zero batch
  size, and the code divides by the width).\<close>

definition cfunc_wf :: "'v cfunc \<Rightarrow> bool" where
  "cfunc_wf ev =
     (0 < simd_size ev \<and> nvars ev < 2 ^ 32 \<and> nouts ev < 2 ^ 32 \<and> nparams ev < 2 ^ 32)"

text \<open>An array that the dtype enforcement accepts.\<close>

definition castable :: "'v env \<Rightarrow> 'v cfunc \<Rightarrow> arr \<Rightarrow> bool" where
  "castable env ev a = (dtype a = dt ev \<or> can_cast env (dtype a) (dt ev))"

text \<open>An outputs array of another dtype (castable to the dtype of the evaluator above) that
  is not writeable.\<close>

definition ex_out_f32 :: arr where
  "ex_out_f32 = \<lparr>base = 1, offset = 0, shape = [1], strides = [1], dtype = 11, writeable = False\<rparr>"

text \<open>An evaluator for \<^verbatim>\<open>mppp::real\<close> at precision 100: one variable, one parameter, one
  output, computing their sum.\<close>

definition ex_real_add :: "int kfun" where
  "ex_real_add ins ps ts k = Num 100 (num_val (ins ! 0) + num_val (ps ! 0))"

definition ex_real_cfunc :: "int cfunc" where
  "ex_real_cfunc = \<lparr>dt = 20, is_real = True, simd_size = 1, nparams = 1,
     is_time_dependent = False, nouts = 1, nvars = 1, prec = 100, fptr_scal = ex_real_add,
     fptr_batch = ex_real_add, fptr_scal_s = ex_real_add, fptr_batch_s = ex_real_add\<rparr>"

definition ex_real_heap :: "nat \<Rightarrow> int \<Rightarrow> int slot" where
  "ex_real_heap b off = (if b = 1 then Num 53 7 else Num 100 (off + 1))"

definition ex_real_state :: "int state" where
  "ex_real_state = \<lparr>heap = ex_real_heap, next_block = 3, scratch = init_scratch ex_real_cfunc,
     klog = [], written = {}\<rparr>"

definition ex_real_arr :: "nat \<Rightarrow> nat list \<Rightarrow> arr" where
  "ex_real_arr b shp = \<lparr>base = b, offset = 0, shape = shp, strides = c_strides shp, dtype = 20,
     writeable = True\<rparr>"

text \<open>The heap slot a pointer designates, and the slots of an array.\<close>

fun slot_of :: "ptr \<Rightarrow> (nat \<times> int) set" where
  "slot_of (Ptr (Npy b) off) = {(b, off)}"
| "slot_of (Ptr (Scratch s) off) = {}"
| "slot_of Null = {}"
| "slot_of Invalid = {}"

definition arr_slots :: "arr \<Rightarrow> (nat \<times> int) set" where
  "arr_slots a = (\<Union>q \<in> set (arr_ptrs a). slot_of q)"

text \<open>The scratch vectors have the sizes given at construction (lines 195--198), and for
  \<^verbatim>\<open>mppp::real\<close> every slot holds a value at the working precision (lines 206--220).\<close>

definition scratch_sized :: "'v cfunc \<Rightarrow> 'v state \<Rightarrow> bool" where
  "scratch_sized ev st =
     (length (scratch st Buf_in) = nvars ev * simd_size ev
      \<and> length (scratch st Buf_out) = nouts ev * simd_size ev
      \<and> length (scratch st Buf_pars) = nparams ev * simd_size ev
      \<and> length (scratch st Buf_time) = simd_size ev)"

definition scratch_ok :: "'v cfunc \<Rightarrow> 'v state \<Rightarrow> bool" where
  "scratch_ok ev st =
     (scratch_sized ev st
      \<and> (is_real ev \<longrightarrow> (\<forall>b. list_all (\<lambda>x. slot_prec x = Some (prec ev)) (scratch st b))))"

text \<open>The shapes that the validation of a single evaluation establishes.\<close>

definition single_shapes :: "'v cfunc \<Rightarrow> arr \<Rightarrow> arr \<Rightarrow> arr option \<Rightarrow> arr option \<Rightarrow> bool" where
  "single_shapes ev inputs outputs pars time =
     (shape inputs = [nvars ev] \<and> shape outputs = [nouts ev]
      \<and> (0 < nparams ev \<longrightarrow> pars \<noteq> None)
      \<and> (case pars of Some p \<Rightarrow> shape p = [nparams ev] | None \<Rightarrow> True)
      \<and> (is_time_dependent ev \<longrightarrow> time \<noteq> None)
      \<and> (case time of Some t \<Rightarrow> shape t = [1] | None \<Rightarrow> True))"

text \<open>A NumPy array has one stride per dimension.\<close>

definition arr_wf :: "arr \<Rightarrow> bool" where
  "arr_wf a = (length (strides a) = length (shape a))"

text \<open>The dense kernels of an evaluator for \<^verbatim>\<open>mppp::real\<close> produce values at the working
  precision (they are compiled with \<^verbatim>\<open>kw::prec = prec\<close>).\<close>

definition kernels_at_prec :: "'v cfunc \<Rightarrow> bool" where
  "kernels_at_prec ev =
     (\<forall>ins ps ts k. slot_prec (fptr_scal ev ins ps ts k) = Some (prec ev)
                     \<and> slot_prec (fptr_batch ev ins ps ts k) = Some (prec ev))"

text \<open>\<open>prec_state ev Q s\<close>: the scratch vectors have their sizes, and every scratch slot and
  every slot designated by a pointer of \<open>Q\<close> holds a value at the working precision.\<close>

definition prec_state :: "'v cfunc \<Rightarrow> ptr set \<Rightarrow> 'v state \<Rightarrow> bool" where
  "prec_state ev Q s =
     (scratch_sized ev s
      \<and> (\<forall>b. list_all (\<lambda>x. slot_prec x = Some (prec ev)) (scratch s b))
      \<and> (\<forall>q \<in> Q. slot_prec (load s q) = Some (prec ev)))"

section \<open>Reference semantics of a single evaluation\<close>

text \<open>
  Following the words of the specification (section 4.4, single evaluation; section 8, the two
  paths produce identical outputs): a single evaluation applies the scalar kernel once to the
  values of the variables, of the parameters and of the time, whatever the memory layout of
  the buffers that carry them, and output \<open>k\<close> of the kernel is element \<open>k\<close> of the outputs
  array. \<open>opt_contents\<close> reads the elements of an optional buffer in index order.
\<close>

definition opt_contents :: "'v state \<Rightarrow> arr option \<Rightarrow> 'v slot list" where
  "opt_contents st ao = (case ao of Some a \<Rightarrow> contents st a | None \<Rightarrow> [])"

definition single_eval_spec ::
  "'v cfunc \<Rightarrow> 'v slot list \<Rightarrow> 'v slot list \<Rightarrow> 'v slot list \<Rightarrow> 'v slot list" where
  "single_eval_spec ev ins ps ts =
     map (fptr_scal ev ins ps (if is_time_dependent ev then ts else [])) [0..<nouts ev]"

text \<open>An array of two elements with a stride of two elements: every other element of block
  \<open>0\<close>.\<close>

definition ex_strided :: arr where
  "ex_strided = \<lparr>base = 0, offset = 0, shape = [2], strides = [2], dtype = 12, writeable = True\<rparr>"

section \<open>Where a call fails\<close>

text \<open>
  \<open>fails_late\<close>: the conversion of the arguments, the checks of lines 272--319, the
  preparation of the outputs array and, for \<^verbatim>\<open>mppp::real\<close>, the precision check of the inputs
  all succeed, and the validation of the parameters (lines 395--442) or of the time (lines
  445--486) fails. \<open>kernel_state\<close> is the state in which these two validations and the
  evaluation run: the outputs array has been prepared and, for \<^verbatim>\<open>mppp::real\<close>, normalized
  (lines 383--390).
\<close>

definition kernel_state ::
  "'v::zero cfunc \<Rightarrow> arr \<Rightarrow> arr option \<Rightarrow> arr \<Rightarrow> 'v state \<Rightarrow> 'v state" where
  "kernel_state ev inputs outputs_opt out st4 =
     (let st5 = snd (prepare_outputs ev inputs outputs_opt st4)
      in if is_real ev then pyreal_ensure_array out (prec ev) st5 else st5)"

definition fails_late ::
  "'v env \<Rightarrow> 'v::zero cfunc \<Rightarrow> arr \<Rightarrow> arr option \<Rightarrow> arr option \<Rightarrow> 'v time_arg option \<Rightarrow> 'v state
     \<Rightarrow> bool" where
  "fails_late env ev inputs_ob outputs_ob pars_ob time_ob st =
     (case convert_args env ev inputs_ob outputs_ob pars_ob time_ob st of
        Inl x \<Rightarrow> False
      | Inr (inputs, outputs_opt, pars, time, st4) \<Rightarrow>
          (case check_head ev inputs pars time time_ob of
             Some e \<Rightarrow> False
           | None \<Rightarrow>
               (case prepare_outputs ev inputs outputs_opt st4 of
                  (Inl e, st5) \<Rightarrow> False
                | (Inr outputs, st5) \<Rightarrow>
                    \<not> (is_real ev \<and> \<not> pyreal_check_array st5 inputs (prec ev))
                    \<and> (let st1 = (if is_real ev then pyreal_ensure_array outputs (prec ev) st5
                                   else st5)
                       in check_pars ev inputs pars st1 \<noteq> None
                          \<or> check_time ev inputs time st1 \<noteq> None))))"


section \<open>Kernel invocations of the zero-copy batch path\<close>

lemma klog_store: "klog (store p v st) = klog st"
  by (induction p v st rule: store.induct) auto

lemma fold_keeps:
  assumes "\<And>x s. P (f x s) = P s"
  shows "P (fold f xs s) = P s"
  using assms by (induction xs arbitrary: s) auto

lemma klog_run_kernel: "klog (run_kernel ev f w s out inp par tm st) = klog st"
  unfolding run_kernel_def Let_def
  by (rule fold_keeps, rule fold_keeps, rule klog_store)

lemma klog_invoke: "klog (invoke ev c st) = klog st @ [c]"
  by (cases c) (simp_all add: klog_run_kernel)

lemma klog_fold_invoke: "klog (fold (\<lambda>k. invoke ev (g k)) xs st) = klog st @ map g xs"
  by (induction xs arbitrary: st) (simp_all add: klog_invoke)

lemma klog_multi_zero_copy:
  "klog (multi_zero_copy ev od idt pd td n st) = klog st @
     map (\<lambda>k. Batch_s (ptr_add od (int (k * simd_size ev)))
                (if 0 < nvars ev then ptr_add idt (int (k * simd_size ev)) else Null)
                (if 0 < nparams ev then ptr_add pd (int (k * simd_size ev)) else Null)
                (if is_time_dependent ev then ptr_add td (int (k * simd_size ev)) else Null) n)
         [0..<n div simd_size ev]
     @ map (\<lambda>k. Scal_s (ptr_add od (int k))
                (if 0 < nvars ev then ptr_add idt (int k) else Null)
                (if 0 < nparams ev then ptr_add pd (int k) else Null)
                (if is_time_dependent ev then ptr_add td (int k) else Null) n)
         [n div simd_size ev * simd_size ev..<n]"
  unfolding multi_zero_copy_def Let_def
  by (simp add: klog_fold_invoke)

text \<open>
  C1: on the zero-copy path of a batch evaluation with \<open>N\<close> points and SIMD width \<open>W\<close>,
  the kernel invocations are exactly: the strided batch kernel for \<open>k = 0, ..., N div W - 1\<close>,
  in this order, with the pointers of the output and of every role that is read advanced by
  \<open>k * W\<close> and stride \<open>N\<close>; then the strided scalar kernel once for each remaining point
  \<open>k = (N div W) * W, ..., N - 1\<close>, with the pointers advanced by \<open>k\<close> and stride \<open>N\<close>.
  A role that is not read gets the null pointer (see C7).
\<close>

theorem zero_copy_batch_dispatch:
  assumes "0 < simd_size ev"
  shows "klog (eval_multi ev True inputs outputs pars time st) = klog st @
     map (\<lambda>k. Batch_s (ptr_add (arr_data outputs) (int (k * simd_size ev)))
                (if 0 < nvars ev then ptr_add (arr_data inputs) (int (k * simd_size ev)) else Null)
                (if 0 < nparams ev then ptr_add (data_opt pars) (int (k * simd_size ev)) else Null)
                (if is_time_dependent ev then ptr_add (data_opt time) (int (k * simd_size ev))
                 else Null)
                (shape inputs ! 1))
         [0..<(shape inputs ! 1) div simd_size ev]
     @ map (\<lambda>k. Scal_s (ptr_add (arr_data outputs) (int k))
                (if 0 < nvars ev then ptr_add (arr_data inputs) (int k) else Null)
                (if 0 < nparams ev then ptr_add (data_opt pars) (int k) else Null)
                (if is_time_dependent ev then ptr_add (data_opt time) (int k) else Null)
                (shape inputs ! 1))
         [(shape inputs ! 1) div simd_size ev * simd_size ev..<shape inputs ! 1]"
  unfolding eval_multi_def Let_def by (simp add: klog_multi_zero_copy)

theorem zero_copy_batch_dispatch_witness:
  "0 < simd_size ex_cfunc \<and>
   klog (eval_multi ex_cfunc True (ex_arr 0 [2, 5]) (ex_arr 1 [1, 5]) None None ex_state) =
     [Batch_s (Ptr (Npy 1) 0) (Ptr (Npy 0) 0) Null Null 5,
      Batch_s (Ptr (Npy 1) 2) (Ptr (Npy 0) 2) Null Null 5,
      Scal_s (Ptr (Npy 1) 4) (Ptr (Npy 0) 4) Null Null 5]"
proof -
  have w: "0 < simd_size ex_cfunc" by (simp add: ex_cfunc_def)
  have u: "[0..<2] = [0, 1]" "[4..<5] = [4]" by (simp_all add: upt_rec)
  show ?thesis
    using zero_copy_batch_dispatch [OF w, of "ex_arr 0 [2, 5]" "ex_arr 1 [1, 5]" None None ex_state]
    by (simp add: ex_cfunc_def ex_arr_def ex_state_def arr_data_def data_opt_def u)
qed

text \<open>
  C7: in the batch zero-copy path the input, parameter and time arguments of every kernel
  invocation are null when \<open>nvars = 0\<close>, \<open>nparams = 0\<close>, or the function is not
  time-dependent, whatever the base pointer is (also a null base pointer, on which adding
  a non-zero offset would give \<open>Invalid\<close>); otherwise they are the base pointer advanced by
  the block or point position.
\<close>

theorem unread_roles_get_null:
  assumes "0 < simd_size ev"
  shows "map (\<lambda>c. (k_in c, k_par c, k_time c))
           (drop (length (klog st))
              (klog (multi_zero_copy ev out_data in_data par_data time_data nevals st))) =
         map (\<lambda>off. (if nvars ev = 0 then Null else ptr_add in_data (int off),
                      if nparams ev = 0 then Null else ptr_add par_data (int off),
                      if \<not> is_time_dependent ev then Null else ptr_add time_data (int off)))
           (map (\<lambda>k. k * simd_size ev) [0..<nevals div simd_size ev]
            @ [nevals div simd_size ev * simd_size ev..<nevals])"
  by (simp add: klog_multi_zero_copy o_def)

theorem unread_roles_get_null_witness:
  "0 < simd_size ex_cfunc \<and>
   map (\<lambda>c. (k_in c, k_par c, k_time c))
     (drop (length (klog ex_state))
        (klog (multi_zero_copy ex_cfunc (Ptr (Npy 1) 0) (Ptr (Npy 0) 0) Null Null 3 ex_state))) =
     [(Ptr (Npy 0) 0, Null, Null), (Ptr (Npy 0) 2, Null, Null)]"
proof -
  have w: "0 < simd_size ex_cfunc" by (simp add: ex_cfunc_def)
  have u: "[0..<1] = [0]" "[2..<3] = [2]" by (simp_all add: upt_rec)
  show ?thesis
    using unread_roles_get_null [OF w, of ex_state "Ptr (Npy 1) 0" "Ptr (Npy 0) 0" Null Null 3]
    by (simp add: ex_cfunc_def ex_state_def u)
qed


section \<open>The zero-copy test\<close>

lemma may_share_memory_pairs:
  "may_share_memory bs = (\<exists>i j. i < j \<and> j < length bs \<and> may_share2 (bs ! i) (bs ! j))"
proof (induction bs)
  case Nil
  then show ?case by simp
next
  case (Cons a bs)
  have "list_ex (may_share2 a) bs = (\<exists>j. j < length bs \<and> may_share2 a (bs ! j))"
    by (auto simp: list_ex_iff in_set_conv_nth intro: nth_mem)
  moreover have "(\<exists>i j. i < j \<and> j < length (a # bs) \<and> may_share2 ((a # bs) ! i) ((a # bs) ! j))
      = ((\<exists>j. j < length bs \<and> may_share2 a (bs ! j))
         \<or> (\<exists>i j. i < j \<and> j < length bs \<and> may_share2 (bs ! i) (bs ! j)))" (is "?L = (?A \<or> ?B)")
  proof
    assume ?L
    then obtain i j where ij: "i < j" "j < length (a # bs)" "may_share2 ((a # bs) ! i) ((a # bs) ! j)"
      by blast
    then obtain j' where j': "j = Suc j'" by (cases j) auto
    show "?A \<or> ?B"
    proof (cases i)
      case 0
      with ij j' show ?thesis by auto
    next
      case (Suc i')
      with ij j' have "i' < j' \<and> j' < length bs \<and> may_share2 (bs ! i') (bs ! j')" by auto
      then show ?thesis by blast
    qed
  next
    assume "?A \<or> ?B"
    then show ?L
    proof
      assume ?A
      then obtain j where "j < length bs" "may_share2 a (bs ! j)" by blast
      then have "0 < Suc j \<and> Suc j < length (a # bs) \<and> may_share2 ((a # bs) ! 0) ((a # bs) ! Suc j)"
        by simp
      then show ?L by blast
    next
      assume ?B
      then obtain i j where "i < j" "j < length bs" "may_share2 (bs ! i) (bs ! j)" by blast
      then have "Suc i < Suc j \<and> Suc j < length (a # bs)
          \<and> may_share2 ((a # bs) ! Suc i) ((a # bs) ! Suc j)" by simp
      then show ?L by blast
    qed
  qed
  ultimately show ?case using Cons.IH by simp
qed

lemma zero_copy_supplied:
  "zero_copy inputs outputs pars time =
     (list_all is_npy_array_carray (supplied inputs outputs pars time)
      \<and> \<not> may_share_memory (supplied inputs outputs pars time))"
  by (cases pars; cases time) (auto simp: zero_copy_def supplied_def Let_def)

section \<open>A scalar time value in batch mode\<close>

lemmas call_defs = call_def convert_args_def call_tail_def to_time_array_def new_array_def
  enforce_dtype_def enforce_dtype_opt_def astype_def check_head_def prepare_outputs_def
  check_pars_def check_time_def zero_copy_def is_npy_array_carray_def may_share2_def
  extent_lo_def extent_hi_def eval_multi_def eval_single_def multi_zero_copy_def
  multi_buffered_def buffered_block_def buffered_point_def single_buffered_def copy_slot_def
  buf_ptr_def data_opt_def arr_data_def elem1_def elem2_def ndim_def run_kernel_def
  gather_ptr_def arr_ptrs_def pyreal_check_array_def pyreal_ensure_array_def init_scratch_def
  init_slot_def

lemmas ex_defs = ex_env_def ex_td_cfunc_def ex_td_state_def ex_arr_def ex_heap_def ex_cfunc_def
  ex_state_def ex_add_def ex_add_time_def num_val_def

text \<open>
  C5: a batch call is expected to reject a scalar time value. The code has no such check:
  the scalar becomes a one-element array, and with one evaluation point the size check of
  the time array against the second dimension of the inputs passes. Here a time-dependent
  function of one variable is called with inputs of shape \<open>(1, 1)\<close> and the scalar time
  \<open>5\<close>: the call returns an outputs array and has invoked the strided batch kernel.
\<close>

theorem batch_call_accepts_scalar_time:
  "fst (call ex_env ex_td_cfunc (ex_arr 0 [1, 1]) None None (Some (TimeScalar (Num 0 5)))
          ex_td_state)
     = Inr \<lparr>base = 3, offset = 0, shape = [1, 1], strides = [1, 1], dtype = 12, writeable = True\<rparr>
   \<and> klog (snd (call ex_env ex_td_cfunc (ex_arr 0 [1, 1]) None None
                  (Some (TimeScalar (Num 0 5))) ex_td_state))
     = [Batch_s (Ptr (Npy 3) 0) (Ptr (Npy 0) 0) Null (Ptr (Npy 2) 0) 1]
   \<and> fst (call ex_env ex_td_cfunc (ex_arr 0 [1]) None None (Some (TimeIterable (ex_arr 1 [1])))
          ex_td_state)
     = Inl ScalarTimeExpected"
  by (simp add: call_defs ex_defs Let_def)

section \<open>Frames of the memory operations\<close>

lemma ptr_region_add: "ptr_region (ptr_add p k) = ptr_region p \<or> ptr_region (ptr_add p k) = None"
  by (cases p) auto

lemma ptr_region_add_Ptr [simp]: "ptr_region (ptr_add (Ptr r off) k) = Some r"
  by simp

lemma only_stores_refl: "only_stores R st st"
  by (simp add: only_stores_def)

lemma only_stores_trans:
  "only_stores R st st1 \<Longrightarrow> only_stores R st1 st2 \<Longrightarrow> only_stores R st st2"
  by (simp add: only_stores_def)

lemma only_stores_mono: "only_stores R st st' \<Longrightarrow> R \<subseteq> R' \<Longrightarrow> only_stores R' st st'"
  unfolding only_stores_def by blast

lemma only_stores_store:
  "ptr_region p = None \<or> ptr_region p = Some r \<Longrightarrow> only_stores {r} st (store p v st)"
  by (induction p v st rule: store.induct) (auto simp: only_stores_def split: if_splits)

lemma only_stores_klog: "only_stores R st (st\<lparr>klog := l\<rparr>)"
  by (simp add: only_stores_def)

lemma only_stores_fold:
  assumes "\<And>x s. only_stores R s (f x s)"
  shows "only_stores R st (fold f xs st)"
proof (induction xs arbitrary: st)
  case Nil
  show ?case by (simp add: only_stores_refl)
next
  case (Cons x xs)
  have "only_stores R st (f x st)" by (rule assms)
  moreover have "only_stores R (f x st) (fold f xs (f x st))" by (rule Cons.IH)
  ultimately show ?case using only_stores_trans by fastforce
qed

lemma only_stores_copy_slot:
  "ptr_region dst = None \<or> ptr_region dst = Some r \<Longrightarrow> only_stores {r} st (copy_slot dst src st)"
  unfolding copy_slot_def by (rule only_stores_store)

lemma only_stores_run_kernel:
  assumes "ptr_region out = None \<or> ptr_region out = Some r"
  shows "only_stores {r} st (run_kernel ev f w s out inp par tm st)"
proof -
  have "\<And>k. ptr_region (ptr_add out k) = None \<or> ptr_region (ptr_add out k) = Some r"
    using assms ptr_region_add [of out] by metis
  then show ?thesis
    unfolding run_kernel_def Let_def
    by (intro only_stores_fold only_stores_store)
qed

lemma only_stores_invoke_aux:
  assumes "ptr_region out = None \<or> ptr_region out = Some r"
  shows "only_stores {r} st (run_kernel ev f w s out inp par tm (st\<lparr>klog := l\<rparr>))"
  using only_stores_trans [OF only_stores_klog only_stores_run_kernel [OF assms]] .

lemma only_stores_invoke:
  "ptr_region (k_out c) = None \<or> ptr_region (k_out c) = Some r \<Longrightarrow> only_stores {r} st (invoke ev c st)"
  by (cases c) (simp_all add: only_stores_invoke_aux)

section \<open>Invariant rules for the loops of the dispatcher\<close>

declare invoke.simps [simp del] store.simps [simp del]

lemma fold_invariant:
  assumes "\<And>x s. x \<in> set xs \<Longrightarrow> I s \<Longrightarrow> I (f x s)" and "I st"
  shows "I (fold f xs st)"
  using assms by (induction xs arbitrary: st) auto

lemma fold2_invariant:
  assumes "\<And>x y s. x \<in> set xs \<Longrightarrow> y \<in> set ys \<Longrightarrow> I s \<Longrightarrow> I (f x y s)" and "I st"
  shows "I (fold (\<lambda>x. fold (f x) ys) xs st)"
  by (rule fold_invariant [where I = I, OF fold_invariant [where I = I]]) (use assms in auto)

lemma run_kernel_invariant:
  assumes "\<And>j l v s. j < nouts ev \<Longrightarrow> l < w \<Longrightarrow> I s \<Longrightarrow> I (store (ptr_add out (int (j * s0 + l))) v s)"
    and "I st"
  shows "I (run_kernel ev f w s0 out inp par tm st)"
  unfolding run_kernel_def Let_def
  by (rule fold2_invariant) (use assms in auto)

lemma single_buffered_invariant:
  assumes in_step: "\<And>i s. i < nvars ev \<Longrightarrow> I s \<Longrightarrow>
        I (copy_slot (ptr_add (buf_ptr Buf_in) (int i)) (elem1 inputs i) s)"
    and par_step: "\<And>p i s. pars = Some p \<Longrightarrow> i < nparams ev \<Longrightarrow> I s \<Longrightarrow>
        I (copy_slot (ptr_add (buf_ptr Buf_pars) (int i)) (elem1 p i) s)"
    and time_step: "\<And>t s. time = Some t \<Longrightarrow> I s \<Longrightarrow>
        I (copy_slot (ptr_add (buf_ptr Buf_time) 0) (elem1 t 0) s)"
    and kernel_step: "\<And>s. I s \<Longrightarrow>
        I (invoke ev (Scal (buf_ptr Buf_out) (buf_ptr Buf_in) (buf_ptr Buf_pars) (buf_ptr Buf_time)) s)"
    and out_step: "\<And>i s. i < nouts ev \<Longrightarrow> I s \<Longrightarrow>
        I (copy_slot (elem1 outputs i) (ptr_add (buf_ptr Buf_out) (int i)) s)"
    and init: "I st"
  shows "I (single_buffered ev inputs outputs pars time st)"
proof -
  let ?st1 = "fold (\<lambda>i. copy_slot (ptr_add (buf_ptr Buf_in) (int i)) (elem1 inputs i))
                [0..<nvars ev] st"
  let ?st2 = "case pars of
                Some u_pars \<Rightarrow>
                  fold (\<lambda>i. copy_slot (ptr_add (buf_ptr Buf_pars) (int i)) (elem1 u_pars i))
                    [0..<nparams ev] ?st1
              | None \<Rightarrow> ?st1"
  let ?st3 = "case time of
                Some u_time \<Rightarrow> copy_slot (ptr_add (buf_ptr Buf_time) 0) (elem1 u_time 0) ?st2
              | None \<Rightarrow> ?st2"
  let ?st4 = "invoke ev (Scal (buf_ptr Buf_out) (buf_ptr Buf_in) (buf_ptr Buf_pars)
                           (buf_ptr Buf_time)) ?st3"
  have 1: "I ?st1" by (rule fold_invariant) (use in_step init in auto)
  have 2: "I ?st2"
  proof (cases pars)
    case None
    with 1 show ?thesis by simp
  next
    case (Some p)
    have "I (fold (\<lambda>i. copy_slot (ptr_add (buf_ptr Buf_pars) (int i)) (elem1 p i))
               [0..<nparams ev] ?st1)"
      by (rule fold_invariant) (use par_step [OF Some] 1 in auto)
    with Some show ?thesis by simp
  qed
  have 3: "I ?st3" using 2 time_step by (cases time) auto
  have 4: "I ?st4" using 3 by (rule kernel_step)
  have "I (fold (\<lambda>i. copy_slot (elem1 outputs i) (ptr_add (buf_ptr Buf_out) (int i)))
             [0..<nouts ev] ?st4)"
    by (rule fold_invariant) (use out_step 4 in auto)
  then show ?thesis unfolding single_buffered_def Let_def .
qed

lemma buffered_point_invariant:
  assumes in_step: "\<And>i s. i < nvars ev \<Longrightarrow> I s \<Longrightarrow>
        I (copy_slot (ptr_add (buf_ptr Buf_in) (int i)) (elem2 inputs i k) s)"
    and par_step: "\<And>p i s. pars = Some p \<Longrightarrow> i < nparams ev \<Longrightarrow> I s \<Longrightarrow>
        I (copy_slot (ptr_add (buf_ptr Buf_pars) (int i)) (elem2 p i k) s)"
    and time_step: "\<And>t s. time = Some t \<Longrightarrow> I s \<Longrightarrow>
        I (copy_slot (ptr_add (buf_ptr Buf_time) 0) (elem1 t k) s)"
    and kernel_step: "\<And>s. I s \<Longrightarrow>
        I (invoke ev (Scal (buf_ptr Buf_out) (buf_ptr Buf_in) (buf_ptr Buf_pars) (buf_ptr Buf_time)) s)"
    and out_step: "\<And>i s. i < nouts ev \<Longrightarrow> I s \<Longrightarrow>
        I (copy_slot (elem2 outputs i k) (ptr_add (buf_ptr Buf_out) (int i)) s)"
    and init: "I st"
  shows "I (buffered_point ev inputs outputs pars time k st)"
proof -
  let ?st1 = "fold (\<lambda>i. copy_slot (ptr_add (buf_ptr Buf_in) (int i)) (elem2 inputs i k))
                [0..<nvars ev] st"
  let ?st2 = "case pars of
                Some u_pars \<Rightarrow>
                  fold (\<lambda>i. copy_slot (ptr_add (buf_ptr Buf_pars) (int i)) (elem2 u_pars i k))
                    [0..<nparams ev] ?st1
              | None \<Rightarrow> ?st1"
  let ?st3 = "case time of
                Some u_time \<Rightarrow> copy_slot (ptr_add (buf_ptr Buf_time) 0) (elem1 u_time k) ?st2
              | None \<Rightarrow> ?st2"
  let ?st4 = "invoke ev (Scal (buf_ptr Buf_out) (buf_ptr Buf_in) (buf_ptr Buf_pars)
                           (buf_ptr Buf_time)) ?st3"
  have 1: "I ?st1" by (rule fold_invariant) (use in_step init in auto)
  have 2: "I ?st2"
  proof (cases pars)
    case None
    with 1 show ?thesis by simp
  next
    case (Some p)
    have "I (fold (\<lambda>i. copy_slot (ptr_add (buf_ptr Buf_pars) (int i)) (elem2 p i k))
               [0..<nparams ev] ?st1)"
      by (rule fold_invariant) (use par_step [OF Some] 1 in auto)
    with Some show ?thesis by simp
  qed
  have 3: "I ?st3" using 2 time_step by (cases time) auto
  have 4: "I ?st4" using 3 by (rule kernel_step)
  have "I (fold (\<lambda>i. copy_slot (elem2 outputs i k) (ptr_add (buf_ptr Buf_out) (int i)))
             [0..<nouts ev] ?st4)"
    by (rule fold_invariant) (use out_step 4 in auto)
  then show ?thesis unfolding buffered_point_def Let_def .
qed

lemma buffered_block_invariant:
  assumes in_step: "\<And>i j s. i < nvars ev \<Longrightarrow> j < simd_size ev \<Longrightarrow> I s \<Longrightarrow>
        I (copy_slot (ptr_add (buf_ptr Buf_in) (int (i * simd_size ev + j)))
             (elem2 inputs i (k * simd_size ev + j)) s)"
    and par_step: "\<And>p i j s. pars = Some p \<Longrightarrow> i < nparams ev \<Longrightarrow> j < simd_size ev \<Longrightarrow> I s \<Longrightarrow>
        I (copy_slot (ptr_add (buf_ptr Buf_pars) (int (i * simd_size ev + j)))
             (elem2 p i (k * simd_size ev + j)) s)"
    and time_step: "\<And>t j s. time = Some t \<Longrightarrow> j < simd_size ev \<Longrightarrow> I s \<Longrightarrow>
        I (copy_slot (ptr_add (buf_ptr Buf_time) (int j)) (elem1 t (k * simd_size ev + j)) s)"
    and kernel_step: "\<And>s. I s \<Longrightarrow>
        I (invoke ev (Batch (buf_ptr Buf_out) (buf_ptr Buf_in) (buf_ptr Buf_pars) (buf_ptr Buf_time)) s)"
    and out_step: "\<And>i j s. i < nouts ev \<Longrightarrow> j < simd_size ev \<Longrightarrow> I s \<Longrightarrow>
        I (copy_slot (elem2 outputs i (k * simd_size ev + j))
             (ptr_add (buf_ptr Buf_out) (int (i * simd_size ev + j))) s)"
    and init: "I st"
  shows "I (buffered_block ev inputs outputs pars time k st)"
proof -
  let ?W = "simd_size ev"
  let ?st1 = "fold (\<lambda>i. fold (\<lambda>j. copy_slot (ptr_add (buf_ptr Buf_in) (int (i * ?W + j)))
                                     (elem2 inputs i (k * ?W + j))) [0..<?W])
                [0..<nvars ev] st"
  let ?st2 = "case pars of
                Some u_pars \<Rightarrow>
                  fold (\<lambda>i. fold (\<lambda>j. copy_slot (ptr_add (buf_ptr Buf_pars) (int (i * ?W + j)))
                                      (elem2 u_pars i (k * ?W + j))) [0..<?W])
                    [0..<nparams ev] ?st1
              | None \<Rightarrow> ?st1"
  let ?st3 = "case time of
                Some u_time \<Rightarrow>
                  fold (\<lambda>j. copy_slot (ptr_add (buf_ptr Buf_time) (int j))
                              (elem1 u_time (k * ?W + j))) [0..<?W] ?st2
              | None \<Rightarrow> ?st2"
  let ?st4 = "invoke ev (Batch (buf_ptr Buf_out) (buf_ptr Buf_in) (buf_ptr Buf_pars)
                           (buf_ptr Buf_time)) ?st3"
  have 1: "I ?st1" by (rule fold2_invariant) (use in_step init in auto)
  have 2: "I ?st2"
  proof (cases pars)
    case None
    with 1 show ?thesis by simp
  next
    case (Some p)
    have "I (fold (\<lambda>i. fold (\<lambda>j. copy_slot (ptr_add (buf_ptr Buf_pars) (int (i * ?W + j)))
                                      (elem2 p i (k * ?W + j))) [0..<?W])
               [0..<nparams ev] ?st1)"
      by (rule fold2_invariant) (use par_step [OF Some] 1 in auto)
    with Some show ?thesis by simp
  qed
  have 3: "I ?st3"
  proof (cases time)
    case None
    with 2 show ?thesis by simp
  next
    case (Some t)
    have "I (fold (\<lambda>j. copy_slot (ptr_add (buf_ptr Buf_time) (int j))
                              (elem1 t (k * ?W + j))) [0..<?W] ?st2)"
      by (rule fold_invariant) (use time_step [OF Some] 2 in auto)
    with Some show ?thesis by simp
  qed
  have 4: "I ?st4" using 3 by (rule kernel_step)
  have "I (fold (\<lambda>i. fold (\<lambda>j. copy_slot (elem2 outputs i (k * ?W + j))
                                (ptr_add (buf_ptr Buf_out) (int (i * ?W + j)))) [0..<?W])
             [0..<nouts ev] ?st4)"
    by (rule fold2_invariant) (use out_step 4 in auto)
  then show ?thesis unfolding buffered_block_def Let_def .
qed

lemma multi_buffered_invariant:
  assumes "\<And>k s. k < nevals div simd_size ev \<Longrightarrow> I s \<Longrightarrow>
        I (buffered_block ev inputs outputs pars time k s)"
    and "\<And>k s. nevals div simd_size ev * simd_size ev \<le> k \<Longrightarrow> k < nevals \<Longrightarrow> I s \<Longrightarrow>
        I (buffered_point ev inputs outputs pars time k s)"
    and "I st"
  shows "I (multi_buffered ev inputs outputs pars time nevals st)"
  unfolding multi_buffered_def Let_def
  by (rule fold_invariant [where I = I, OF _ fold_invariant [where I = I]]) (use assms in auto)

lemma multi_zero_copy_invariant:
  assumes step: "\<And>c s. \<exists>k. k_out c = ptr_add out_data (int k) \<Longrightarrow> I s \<Longrightarrow> I (invoke ev c s)"
    and init: "I st"
  shows "I (multi_zero_copy ev out_data in_data par_data time_data nevals st)"
proof -
  have a: "\<And>c xs s. \<forall>x. \<exists>k. k_out (c x) = ptr_add out_data (int k) \<Longrightarrow> I s
      \<Longrightarrow> I (fold (\<lambda>x. invoke ev (c x)) xs s)"
    by (rule fold_invariant [where I = I]) (use step in blast)+
  let ?b = "\<lambda>k. Batch_s (ptr_add out_data (int (k * simd_size ev)))
                   (if 0 < nvars ev then ptr_add in_data (int (k * simd_size ev)) else Null)
                   (if 0 < nparams ev then ptr_add par_data (int (k * simd_size ev)) else Null)
                   (if is_time_dependent ev then ptr_add time_data (int (k * simd_size ev))
                    else Null) nevals"
  let ?s = "\<lambda>k. Scal_s (ptr_add out_data (int k))
                   (if 0 < nvars ev then ptr_add in_data (int k) else Null)
                   (if 0 < nparams ev then ptr_add par_data (int k) else Null)
                   (if is_time_dependent ev then ptr_add time_data (int k) else Null) nevals"
  have 1: "I (fold (\<lambda>k. invoke ev (?b k)) [0..<nevals div simd_size ev] st)"
  proof (rule a [of ?b])
    show "\<forall>x. \<exists>k. k_out (?b x) = ptr_add out_data (int k)"
      unfolding k_out.simps by blast
  qed (rule init)
  have "I (fold (\<lambda>k. invoke ev (?s k)) [nevals div simd_size ev * simd_size ev..<nevals]
             (fold (\<lambda>k. invoke ev (?b k)) [0..<nevals div simd_size ev] st))"
  proof (rule a [of ?s])
    show "\<forall>x. \<exists>k. k_out (?s x) = ptr_add out_data (int k)"
      unfolding k_out.simps by blast
  qed (rule 1)
  then show ?thesis
    unfolding multi_zero_copy_def Let_def .
qed

section \<open>Argument conversion allocates and stores to fresh blocks only\<close>

lemma grows_refl: "grows st st"
  by (simp add: grows_def)

lemma grows_trans: "grows st st1 \<Longrightarrow> grows st1 st2 \<Longrightarrow> grows st st2"
  by (auto simp: grows_def)

lemma grows_store_fresh:
  "grows st0 st \<Longrightarrow> next_block st0 \<le> b \<Longrightarrow> grows st0 (store (Ptr (Npy b) off) v st)"
  by (auto simp: grows_def store.simps)

lemma arr_ptrs_form: "p \<in> set (arr_ptrs a) \<Longrightarrow> \<exists>off. p = Ptr (Npy (base a)) off"
  by (auto simp: arr_ptrs_def arr_data_def)

lemma new_array_grows: "new_array d shp st = (a, st1) \<Longrightarrow>
    grows st st1 \<and> next_block st1 = Suc (next_block st) \<and> heap st1 = heap st
    \<and> written st1 = written st
    \<and> a = \<lparr>base = next_block st, offset = 0, shape = shp, strides = c_strides shp, dtype = d,
           writeable = True\<rparr>"
  by (auto simp: new_array_def grows_def)

lemma astype_Inr:
  assumes "astype env d a st = Inr (b, st')"
  shows "grows st st'"
    and "b = \<lparr>base = next_block st, offset = 0, shape = shape a, strides = c_strides (shape a),
               dtype = d, writeable = True\<rparr>"
    and "can_cast env (dtype a) d"
proof -
  obtain b0 st1 where n: "new_array d (shape a) st = (b0, st1)" by fastforce
  from assms n have cc: "can_cast env (dtype a) d" and b: "b = b0"
    and st': "st' = fold (\<lambda>(src, dst). store dst (cast_elem env (dtype a) d (load st src)))
                      (zip (arr_ptrs a) (arr_ptrs b0)) st1"
    by (auto simp: astype_def split: if_splits)
  note na = new_array_grows [OF n]
  have "grows st (fold (\<lambda>(src, dst). store dst (cast_elem env (dtype a) d (load st src)))
                      (zip (arr_ptrs a) (arr_ptrs b0)) st1)"
  proof (rule fold_invariant [where I = "grows st"])
    fix x s assume x: "x \<in> set (zip (arr_ptrs a) (arr_ptrs b0))" and s: "grows st s"
    obtain src dst where xd: "x = (src, dst)" by (cases x)
    with x have "dst \<in> set (arr_ptrs b0)" by (auto dest: set_zip_rightD)
    then obtain off where "dst = Ptr (Npy (base b0)) off" using arr_ptrs_form by blast
    moreover have "next_block st \<le> base b0" using na by simp
    ultimately show "grows st ((case x of (src, dst) \<Rightarrow>
        store dst (cast_elem env (dtype a) d (load st src))) s)"
      using xd s by (simp add: grows_store_fresh)
  qed (use na in simp)
  then show "grows st st'" using st' by simp
  show "b = \<lparr>base = next_block st, offset = 0, shape = shape a, strides = c_strides (shape a),
               dtype = d, writeable = True\<rparr>" using na b by simp
  show "can_cast env (dtype a) d" by (rule cc)
qed

lemma astype_Inl: "astype env d a st = Inl e \<Longrightarrow> e = UnsafeCast \<and> \<not> can_cast env (dtype a) d"
  by (auto simp: astype_def split: if_splits prod.splits)

lemma enforce_dtype_Inr:
  assumes "enforce_dtype env ev a st = Inr (b, st')" and "n \<le> next_block st"
  shows "grows st st' \<and> conv_of env ev n a b"
proof (cases "dtype a = dt ev")
  case True
  with assms show ?thesis by (simp add: enforce_dtype_def conv_of_def grows_refl)
next
  case False
  with assms have a: "astype env (dt ev) a st = Inr (b, st')" by (simp add: enforce_dtype_def)
  show ?thesis using astype_Inr [OF a] False assms(2) by (simp add: conv_of_def)
qed

lemma enforce_dtype_Inl: "enforce_dtype env ev a st = Inl e \<Longrightarrow>
    e = UnsafeCast \<and> dtype a \<noteq> dt ev \<and> \<not> can_cast env (dtype a) (dt ev)"
  by (auto simp: enforce_dtype_def split: if_splits dest: astype_Inl)

lemma enforce_dtype_opt_Inr:
  assumes "enforce_dtype_opt env ev ao st = Inr (bo, st')" and "n \<le> next_block st"
  shows "grows st st' \<and> rel_option (conv_of env ev n) ao bo"
proof (cases ao)
  case None
  with assms show ?thesis by (simp add: enforce_dtype_opt_def grows_refl)
next
  case (Some a)
  with assms obtain b where e: "enforce_dtype env ev a st = Inr (b, st')" and b: "bo = Some b"
    by (auto simp: enforce_dtype_opt_def split: sum.splits)
  show ?thesis using enforce_dtype_Inr [OF e assms(2)] Some b by simp
qed

lemma enforce_dtype_opt_Inl: "enforce_dtype_opt env ev ao st = Inl e \<Longrightarrow>
    e = UnsafeCast \<and> (\<exists>a. ao = Some a \<and> dtype a \<noteq> dt ev \<and> \<not> can_cast env (dtype a) (dt ev))"
  by (auto simp: enforce_dtype_opt_def split: option.splits sum.splits dest: enforce_dtype_Inl)

lemma to_time_array_grows:
  assumes "to_time_array ev t st = (a, st')"
  shows "grows st st'"
    and "case t of TimeIterable b \<Rightarrow> a = b \<and> st' = st
         | TimeScalar v \<Rightarrow> a = \<lparr>base = next_block st, offset = 0, shape = [1], strides = [1],
                                 dtype = dt ev, writeable = True\<rparr>"
  using assms
  by (auto simp: to_time_array_def new_array_def arr_data_def grows_def store.simps
        split: time_arg.splits)

lemma convert_args_Inr:
  assumes "convert_args env ev i oo p t st = Inr (inputs, outputs_opt, pars, time, st4)"
  shows "grows st st4"
    and "conv_of env ev (next_block st) i inputs"
    and "rel_option (conv_of env ev (next_block st)) oo outputs_opt"
    and "rel_option (conv_of env ev (next_block st)) p pars"
    and "t = None \<longrightarrow> time = None"
    and "\<forall>a. t = Some (TimeIterable a) \<longrightarrow> (\<exists>b. time = Some b \<and> conv_of env ev (next_block st) a b)"
    and "\<forall>v. t = Some (TimeScalar v) \<longrightarrow>
           (\<exists>b. time = Some b \<and> shape b = [1] \<and> strides b = [1] \<and> offset b = 0
                \<and> dtype b = dt ev \<and> writeable b \<and> next_block st \<le> base b)"
proof -
  let ?n = "next_block st"
  obtain time0 st0 where t0: "(case t of None \<Rightarrow> (None, st)
      | Some t' \<Rightarrow> (let (a, s) = to_time_array ev t' st in (Some a, s))) = (time0, st0)"
    by fastforce
  from assms t0 obtain st1 st2 st3 where
        e1: "enforce_dtype env ev i st0 = Inr (inputs, st1)"
    and e2: "enforce_dtype_opt env ev oo st1 = Inr (outputs_opt, st2)"
    and e3: "enforce_dtype_opt env ev p st2 = Inr (pars, st3)"
    and e4: "enforce_dtype_opt env ev time0 st3 = Inr (time, st4)"
    by (auto simp: convert_args_def split: sum.splits)
  have g0: "grows st st0"
    using t0 by (cases t) (auto simp: grows_refl split: prod.splits dest: to_time_array_grows(1))
  then have n0: "?n \<le> next_block st0" by (simp add: grows_def)
  note r1 = enforce_dtype_Inr [OF e1 n0]
  then have n1: "?n \<le> next_block st1" using n0 by (simp add: grows_def)
  note r2 = enforce_dtype_opt_Inr [OF e2 n1]
  then have n2: "?n \<le> next_block st2" using n1 by (simp add: grows_def)
  note r3 = enforce_dtype_opt_Inr [OF e3 n2]
  then have n3: "?n \<le> next_block st3" using n2 by (simp add: grows_def)
  note r4 = enforce_dtype_opt_Inr [OF e4 n3]
  show "grows st st4" using g0 r1 r2 r3 r4 grows_trans by blast
  show "conv_of env ev ?n i inputs" using r1 by simp
  show "rel_option (conv_of env ev ?n) oo outputs_opt" using r2 by simp
  show "rel_option (conv_of env ev ?n) p pars" using r3 by simp
  show "t = None \<longrightarrow> time = None" using t0 r4 by auto
  show "\<forall>a. t = Some (TimeIterable a) \<longrightarrow> (\<exists>b. time = Some b \<and> conv_of env ev ?n a b)"
  proof (intro allI impI)
    fix a assume "t = Some (TimeIterable a)"
    with t0 have "time0 = Some a" by (auto simp: to_time_array_def)
    with r4 show "\<exists>b. time = Some b \<and> conv_of env ev ?n a b" by (cases time) auto
  qed
  show "\<forall>v. t = Some (TimeScalar v) \<longrightarrow>
           (\<exists>b. time = Some b \<and> shape b = [1] \<and> strides b = [1] \<and> offset b = 0
                \<and> dtype b = dt ev \<and> writeable b \<and> ?n \<le> base b)"
  proof (intro allI impI)
    fix v assume "t = Some (TimeScalar v)"
    with t0 have "time0 = Some \<lparr>base = ?n, offset = 0, shape = [1], strides = [1],
                                 dtype = dt ev, writeable = True\<rparr>"
      by (auto simp: to_time_array_def new_array_def split: prod.splits)
    with r4 show "\<exists>b. time = Some b \<and> shape b = [1] \<and> strides b = [1] \<and> offset b = 0
                \<and> dtype b = dt ev \<and> writeable b \<and> ?n \<le> base b"
      by (cases time) (auto simp: conv_of_def)
  qed
qed

lemma convert_args_Inl:
  assumes "convert_args env ev i oo p t st = Inl (e, st0)"
  shows "grows st st0 \<and> e = UnsafeCast"
proof -
  obtain time0 s0 where t0: "(case t of None \<Rightarrow> (None, st)
      | Some t' \<Rightarrow> (let (a, s) = to_time_array ev t' st in (Some a, s))) = (time0, s0)"
    by fastforce
  have g0: "grows st s0"
    using t0 by (cases t) (auto simp: grows_refl split: prod.splits dest: to_time_array_grows(1))
  show ?thesis
  proof (cases "enforce_dtype env ev i s0")
    case (Inl e1)
    with assms t0 show ?thesis using g0 enforce_dtype_Inl [OF Inl] by (simp add: convert_args_def)
  next
    case (Inr r1)
    obtain inputs st1 where r1: "r1 = (inputs, st1)" by (cases r1)
    note g1 = grows_trans [OF g0 enforce_dtype_Inr [OF Inr [unfolded r1] order_refl, THEN conjunct1]]
    show ?thesis
    proof (cases "enforce_dtype_opt env ev oo st1")
      case (Inl e2)
      with assms t0 Inr r1 show ?thesis
        using g1 enforce_dtype_opt_Inl [OF Inl] by (auto simp: convert_args_def)
    next
      case (Inr r2)
      obtain outputs_opt st2 where r2: "r2 = (outputs_opt, st2)" by (cases r2)
      note g2 = grows_trans [OF g1 enforce_dtype_opt_Inr [OF Inr [unfolded r2] order_refl, THEN conjunct1]]
      show ?thesis
      proof (cases "enforce_dtype_opt env ev p st2")
        case (Inl e3)
        with assms t0 \<open>enforce_dtype env ev i s0 = Inr r1\<close> r1
          \<open>enforce_dtype_opt env ev oo st1 = Inr r2\<close> r2 show ?thesis
          using g2 enforce_dtype_opt_Inl [OF Inl]
          by (auto simp: convert_args_def)
      next
        case (Inr r3)
        obtain pars st3 where r3: "r3 = (pars, st3)" by (cases r3)
        note g3 = grows_trans [OF g2 enforce_dtype_opt_Inr [OF Inr [unfolded r3] order_refl, THEN conjunct1]]
        show ?thesis
        proof (cases "enforce_dtype_opt env ev time0 st3")
          case (Inl e4)
          with assms t0 \<open>enforce_dtype env ev i s0 = Inr r1\<close> r1
            \<open>enforce_dtype_opt env ev oo st1 = Inr r2\<close> r2
            \<open>enforce_dtype_opt env ev p st2 = Inr r3\<close> r3 show ?thesis
            using g3 enforce_dtype_opt_Inl [OF Inl]
            by (auto simp: convert_args_def)
        next
          case (Inr r4)
          with assms t0 \<open>enforce_dtype env ev i s0 = Inr r1\<close> r1
            \<open>enforce_dtype_opt env ev oo st1 = Inr r2\<close> r2
            \<open>enforce_dtype_opt env ev p st2 = Inr r3\<close> r3 show ?thesis
            by (auto simp: convert_args_def)
        qed
      qed
    qed
  qed
qed

lemma prepare_outputs_state:
  assumes "prepare_outputs ev inputs oo st = (r, st')"
  shows "grows st st' \<and> heap st' = heap st \<and> written st' = written st"
  using assms
  by (auto simp: prepare_outputs_def Let_def new_array_def grows_def
        split: option.splits if_splits)

lemma prepare_outputs_Inr:
  assumes "prepare_outputs ev inputs oo st = (Inr out, st')"
    and "ndim inputs = 1 \<or> ndim inputs = 2"
  shows "ndim out = ndim inputs" and "shape out ! 0 = nouts ev"
    and "ndim inputs = 2 \<longrightarrow> shape out ! 1 = shape inputs ! 1"
    and "\<forall>a. oo = Some a \<longrightarrow> out = a \<and> st' = st \<and> writeable a"
    and "oo = None \<longrightarrow> out = \<lparr>base = next_block st, offset = 0,
            shape = (if ndim inputs = 2 then [nouts ev, shape inputs ! 1] else [nouts ev]),
            strides = c_strides (if ndim inputs = 2 then [nouts ev, shape inputs ! 1] else [nouts ev]),
            dtype = dtype inputs, writeable = True\<rparr>"
  using assms
  by (auto simp: prepare_outputs_def Let_def new_array_def ndim_def
        split: option.splits if_splits)

lemma call_Inr:
  assumes "call env ev i oo p t st = (Inr out, st')"
  obtains inputs outputs_opt pars time st4 st5 st6 where
    "convert_args env ev i oo p t st = Inr (inputs, outputs_opt, pars, time, st4)"
    "check_head ev inputs pars time t = None"
    "prepare_outputs ev inputs outputs_opt st4 = (Inr out, st5)"
    "is_real ev \<longrightarrow> pyreal_check_array st5 inputs (prec ev)"
    "st6 = (if is_real ev then pyreal_ensure_array out (prec ev) st5 else st5)"
    "check_pars ev inputs pars st6 = None"
    "check_time ev inputs time st6 = None"
    "st' = (if ndim inputs = 2
            then eval_multi ev (zero_copy inputs out pars time) inputs out pars time st6
            else eval_single ev (zero_copy inputs out pars time) inputs out pars time st6)"
proof -
  from assms obtain inputs outputs_opt pars time st4 where
    c: "convert_args env ev i oo p t st = Inr (inputs, outputs_opt, pars, time, st4)"
    by (auto simp: call_def split: sum.splits prod.splits)
  from assms c have h: "check_head ev inputs pars time t = None"
    by (auto simp: call_def split: option.splits)
  from assms c h obtain outputs st5 where
    po: "prepare_outputs ev inputs outputs_opt st4 = (Inr outputs, st5)"
    and ct: "call_tail ev inputs outputs pars time st5 = (Inr out, st')"
    by (auto simp: call_def split: prod.splits sum.splits)
  from ct have oeq: "outputs = out"
    by (auto simp: call_tail_def Let_def split: if_splits option.splits)
  let ?st6 = "if is_real ev then pyreal_ensure_array out (prec ev) st5 else st5"
  from ct oeq have "is_real ev \<longrightarrow> pyreal_check_array st5 inputs (prec ev)"
    and "check_pars ev inputs pars ?st6 = None"
    and "check_time ev inputs time ?st6 = None"
    and "st' = (if ndim inputs = 2
            then eval_multi ev (zero_copy inputs out pars time) inputs out pars time ?st6
            else eval_single ev (zero_copy inputs out pars time) inputs out pars time ?st6)"
    by (auto simp: call_tail_def Let_def split: if_splits option.splits)
  with c h po oeq that show thesis by blast
qed

section \<open>A batch call with zero evaluation points\<close>

lemma convert_args_total:
  assumes "castable env ev i" and "\<forall>a. oo = Some a \<longrightarrow> castable env ev a"
    and "\<forall>a. p = Some a \<longrightarrow> castable env ev a"
    and "\<forall>a. t = Some (TimeIterable a) \<longrightarrow> castable env ev a"
  shows "\<exists>inputs outputs_opt pars time st4.
           convert_args env ev i oo p t st = Inr (inputs, outputs_opt, pars, time, st4)"
proof -
  obtain time0 st0 where t0: "(case t of None \<Rightarrow> (None, st)
      | Some t' \<Rightarrow> (let (a, s) = to_time_array ev t' st in (Some a, s))) = (time0, st0)"
    by fastforce
  have ct: "\<forall>a. time0 = Some a \<longrightarrow> castable env ev a"
    using t0 assms(4)
    by (cases t) (auto simp: to_time_array_def new_array_def castable_def
          split: time_arg.splits prod.splits)
  have e: "\<And>a s. castable env ev a \<Longrightarrow> \<exists>b s'. enforce_dtype env ev a s = Inr (b, s')"
    by (auto simp: enforce_dtype_def astype_def castable_def split: prod.splits)
  have eo: "\<And>ao s. \<forall>a. ao = Some a \<longrightarrow> castable env ev a
      \<Longrightarrow> \<exists>bo s'. enforce_dtype_opt env ev ao s = Inr (bo, s')"
  proof -
    fix ao :: "arr option" and s :: "'a state"
    assume h: "\<forall>a. ao = Some a \<longrightarrow> castable env ev a"
    show "\<exists>bo s'. enforce_dtype_opt env ev ao s = Inr (bo, s')"
    proof (cases ao)
      case None
      then show ?thesis by (simp add: enforce_dtype_opt_def)
    next
      case (Some a)
      with h e [of a s] show ?thesis by (auto simp: enforce_dtype_opt_def)
    qed
  qed
  obtain inputs st1 where 1: "enforce_dtype env ev i st0 = Inr (inputs, st1)"
    using e [OF assms(1)] by blast
  obtain outputs_opt st2 where 2: "enforce_dtype_opt env ev oo st1 = Inr (outputs_opt, st2)"
    using eo [OF assms(2)] by blast
  obtain pars st3 where 3: "enforce_dtype_opt env ev p st2 = Inr (pars, st3)"
    using eo [OF assms(3)] by blast
  obtain time st4 where 4: "enforce_dtype_opt env ev time0 st3 = Inr (time, st4)"
    using eo [OF ct] by blast
  show ?thesis using t0 1 2 3 4 by (simp add: convert_args_def)
qed

lemma offsets_zero_points: "offsets [n, 0] ss = []"
proof (cases ss)
  case Nil
  then show ?thesis by simp
next
  case (Cons s ss')
  have "offsets [0] ss' = []" by (cases ss') auto
  with Cons show ?thesis by simp
qed

lemma offsets_zero_length: "offsets [0] ss = []"
  by (cases ss) auto

lemma arr_ptrs_zero_points: "shape a = [n, 0] \<Longrightarrow> arr_ptrs a = []"
  by (simp add: arr_ptrs_def offsets_zero_points)

lemma arr_ptrs_zero_length: "shape a = [0] \<Longrightarrow> arr_ptrs a = []"
  by (simp add: arr_ptrs_def offsets_zero_length)

lemma eval_multi_zero_points:
  "shape inputs = [n, 0] \<Longrightarrow> eval_multi ev zc inputs out pars time st = st"
  by (simp add: eval_multi_def multi_zero_copy_def multi_buffered_def Let_def)

lemma call_tail_zero_points:
  assumes "cfunc_wf ev" and "shape inputs = [nvars ev, 0]" and "shape out = [nouts ev, 0]"
    and "\<forall>a. pars = Some a \<longrightarrow> shape a = [nparams ev, 0]"
    and "\<forall>a. time = Some a \<longrightarrow> shape a = [0]"
  shows "call_tail ev inputs out pars time st = (Inr out, st)"
proof -
  have ci: "pyreal_check_array st inputs (prec ev)"
    using assms(2) by (simp add: pyreal_check_array_def arr_ptrs_zero_points)
  have en: "pyreal_ensure_array out (prec ev) st = st"
    using assms(3) by (simp add: pyreal_ensure_array_def arr_ptrs_zero_points)
  have cp: "check_pars ev inputs pars st = None"
    using assms(1,2,4)
    by (cases pars) (auto simp: check_pars_def ndim_def cfunc_wf_def pyreal_check_array_def
          arr_ptrs_zero_points)
  have ctm: "check_time ev inputs time st = None"
    using assms(2,5)
    by (cases time) (auto simp: check_time_def ndim_def pyreal_check_array_def
          arr_ptrs_zero_length)
  show ?thesis
    using ci en cp ctm eval_multi_zero_points [OF assms(2)] assms(2)
    by (simp add: call_tail_def Let_def ndim_def)
qed

text \<open>
  C10: a batch call with zero evaluation points, that is inputs of shape \<open>(nvars, 0)\<close>, the
  other supplied buffers with second dimension \<open>0\<close> (the time an iterable of length \<open>0\<close>)
  and otherwise valid, is accepted, invokes no kernel and returns an outputs array of shape
  \<open>(nouts, 0)\<close>.
\<close>

theorem zero_point_batch_call:
  assumes wf: "cfunc_wf ev"
    and inp: "shape i = [nvars ev, 0]" "castable env ev i"
    and out: "\<forall>a. oo = Some a \<longrightarrow> shape a = [nouts ev, 0] \<and> castable env ev a
                \<and> (dtype a = dt ev \<longrightarrow> writeable a)"
    and par: "0 < nparams ev \<longrightarrow> p \<noteq> None"
             "\<forall>a. p = Some a \<longrightarrow> shape a = [nparams ev, 0] \<and> castable env ev a"
    and tm: "is_time_dependent ev \<longrightarrow> t \<noteq> None"
            "\<forall>x. t = Some x \<longrightarrow> (\<exists>a. x = TimeIterable a \<and> shape a = [0] \<and> castable env ev a)"
  shows "\<exists>out st'. call env ev i oo p t st = (Inr out, st') \<and> klog st' = klog st
           \<and> shape out = [nouts ev, 0]"
proof -
  have "\<exists>inputs outputs_opt pars time st4.
           convert_args env ev i oo p t st = Inr (inputs, outputs_opt, pars, time, st4)"
    by (rule convert_args_total) (use inp out par tm in auto)
  then obtain inputs outputs_opt pars time st4 where
    c: "convert_args env ev i oo p t st = Inr (inputs, outputs_opt, pars, time, st4)" by blast
  note r = convert_args_Inr [OF c]
  have si: "shape inputs = [nvars ev, 0]" using r(2) inp by (simp add: conv_of_def)
  have sp: "\<forall>a. pars = Some a \<longrightarrow> shape a = [nparams ev, 0]"
    using r(4) par(2) by (cases p; cases pars) (auto simp: conv_of_def)
  have pn: "0 < nparams ev \<longrightarrow> pars \<noteq> None"
    using r(4) par(1) by (cases p; cases pars) auto
  have stm: "\<forall>a. time = Some a \<longrightarrow> shape a = [0]"
  proof (cases t)
    case None
    with r(5) show ?thesis by simp
  next
    case (Some x)
    with tm(2) obtain a where "x = TimeIterable a" "shape a = [0]" by blast
    with Some r(6) show ?thesis by (auto simp: conv_of_def)
  qed
  have tn: "is_time_dependent ev \<longrightarrow> time \<noteq> None"
  proof (cases t)
    case None
    with tm(1) show ?thesis by simp
  next
    case (Some x)
    with tm(2) obtain a where "x = TimeIterable a" by blast
    with Some r(6) show ?thesis by auto
  qed
  have h: "check_head ev inputs pars time t = None"
    using si pn tn wf by (auto simp: check_head_def ndim_def cfunc_wf_def)
  have "\<exists>outputs st5. prepare_outputs ev inputs outputs_opt st4 = (Inr outputs, st5)
          \<and> shape outputs = [nouts ev, 0] \<and> klog st5 = klog st4"
  proof (cases outputs_opt)
    case None
    then show ?thesis using si
      by (simp add: prepare_outputs_def Let_def new_array_def ndim_def)
  next
    case (Some b)
    with r(3) obtain a where a: "oo = Some a" "conv_of env ev (next_block st) a b"
      by (cases oo) auto
    with out have "shape b = [nouts ev, 0]" "writeable b"
      by (auto simp: conv_of_def split: if_splits)
    with Some si wf show ?thesis
      by (simp add: prepare_outputs_def Let_def ndim_def cfunc_wf_def)
  qed
  then obtain outputs st5 where po: "prepare_outputs ev inputs outputs_opt st4 = (Inr outputs, st5)"
    and so: "shape outputs = [nouts ev, 0]" and k5: "klog st5 = klog st4" by blast
  have "call_tail ev inputs outputs pars time st5 = (Inr outputs, st5)"
    by (rule call_tail_zero_points [OF wf si so sp stm])
  with c h po have "call env ev i oo p t st = (Inr outputs, st5)"
    by (simp add: call_def)
  moreover have "klog st5 = klog st" using k5 r(1) by (simp add: grows_def)
  ultimately show ?thesis using so by blast
qed

theorem zero_point_batch_call_witness:
  "cfunc_wf ex_cfunc \<and> shape (ex_arr 0 [2, 0]) = [nvars ex_cfunc, 0]
   \<and> (\<exists>out st'. call ex_env ex_cfunc (ex_arr 0 [2, 0]) None None None ex_state = (Inr out, st')
         \<and> klog st' = klog ex_state \<and> shape out = [nouts ex_cfunc, 0])"
proof -
  have wf: "cfunc_wf ex_cfunc" by (simp add: cfunc_wf_def ex_cfunc_def)
  have s: "shape (ex_arr 0 [2, 0]) = [nvars ex_cfunc, 0]" by (simp add: ex_arr_def ex_cfunc_def)
  have c: "castable ex_env ex_cfunc (ex_arr 0 [2, 0])"
    by (simp add: castable_def ex_arr_def ex_cfunc_def)
  have n: "0 < nparams ex_cfunc \<longrightarrow> (None :: arr option) \<noteq> None" by (simp add: ex_cfunc_def)
  have t: "is_time_dependent ex_cfunc \<longrightarrow> (None :: int time_arg option) \<noteq> None"
    by (simp add: ex_cfunc_def)
  show ?thesis
    using zero_point_batch_call [OF wf s c _ n _ t, of None ex_state] wf s by simp
qed

section \<open>What an evaluation stores to\<close>

lemma only_stores_step_copy:
  assumes "only_stores R st0 s" and "ptr_region dst = Some r" and "r \<in> R"
  shows "only_stores R st0 (copy_slot dst src s)"
proof -
  have "only_stores {r} s (copy_slot dst src s)"
    by (rule only_stores_copy_slot) (simp add: assms(2))
  then have "only_stores R s (copy_slot dst src s)"
    by (rule only_stores_mono) (use assms(3) in simp)
  with assms(1) show ?thesis by (rule only_stores_trans)
qed

lemma only_stores_step_invoke:
  assumes "only_stores R st0 s" and "ptr_region (k_out c) = None \<or> ptr_region (k_out c) = Some r"
    and "r \<in> R"
  shows "only_stores R st0 (invoke ev c s)"
proof -
  have "only_stores {r} s (invoke ev c s)"
    by (rule only_stores_invoke) (rule assms(2))
  then have "only_stores R s (invoke ev c s)"
    by (rule only_stores_mono) (use assms(3) in simp)
  with assms(1) show ?thesis by (rule only_stores_trans)
qed

lemma region_arr_data [simp]: "ptr_region (arr_data a) = Some (Npy (base a))"
  by (simp add: arr_data_def)

lemma region_elem1 [simp]: "ptr_region (elem1 a i) = Some (Npy (base a))"
  by (simp add: elem1_def arr_data_def)

lemma region_elem2 [simp]: "ptr_region (elem2 a i j) = Some (Npy (base a))"
  by (simp add: elem2_def arr_data_def)

lemma region_buf_ptr [simp]: "ptr_region (ptr_add (buf_ptr b) k) = Some (Scratch b)"
  by (simp add: buf_ptr_def)

lemma region_buf_ptr0 [simp]: "ptr_region (buf_ptr b) = Some (Scratch b)"
  by (simp add: buf_ptr_def)

lemma step_to_scratch:
  "range Scratch \<subseteq> R \<Longrightarrow> only_stores R st0 s
     \<Longrightarrow> only_stores R st0 (copy_slot (ptr_add (buf_ptr b) k) src s)"
  by (rule only_stores_step_copy [where r = "Scratch b"]) auto

lemma step_to_elem1:
  "Npy (base a) \<in> R \<Longrightarrow> only_stores R st0 s \<Longrightarrow> only_stores R st0 (copy_slot (elem1 a i) src s)"
  by (rule only_stores_step_copy [where r = "Npy (base a)"]) auto

lemma step_to_elem2:
  "Npy (base a) \<in> R \<Longrightarrow> only_stores R st0 s
     \<Longrightarrow> only_stores R st0 (copy_slot (elem2 a i j) src s)"
  by (rule only_stores_step_copy [where r = "Npy (base a)"]) auto

lemma step_kernel_scratch:
  "range Scratch \<subseteq> R \<Longrightarrow> k_out c = buf_ptr b \<Longrightarrow> only_stores R st0 s
     \<Longrightarrow> only_stores R st0 (invoke ev c s)"
  by (rule only_stores_step_invoke [where r = "Scratch b"]) auto

lemma step_kernel_array:
  "Npy (base a) \<in> R \<Longrightarrow> \<exists>k. k_out c = ptr_add (arr_data a) k \<Longrightarrow> only_stores R st0 s
     \<Longrightarrow> only_stores R st0 (invoke ev c s)"
  by (rule only_stores_step_invoke [where r = "Npy (base a)"]) (auto simp: arr_data_def)

lemma single_buffered_only_stores:
  assumes "range Scratch \<subseteq> R" and "Npy (base outputs) \<in> R" and "only_stores R st0 st"
  shows "only_stores R st0 (single_buffered ev inputs outputs pars time st)"
  apply (rule single_buffered_invariant [where I = "only_stores R st0"])
  by (rule step_to_scratch [OF assms(1)] step_to_elem1 [OF assms(2)]
        step_kernel_scratch [OF assms(1), where b = Buf_out] k_out.simps assms(3) | assumption)+

lemma buffered_point_only_stores:
  assumes "range Scratch \<subseteq> R" and "Npy (base outputs) \<in> R" and "only_stores R st0 st"
  shows "only_stores R st0 (buffered_point ev inputs outputs pars time k st)"
  apply (rule buffered_point_invariant [where I = "only_stores R st0"])
  by (rule step_to_scratch [OF assms(1)] step_to_elem2 [OF assms(2)]
        step_kernel_scratch [OF assms(1), where b = Buf_out] k_out.simps assms(3) | assumption)+

lemma buffered_block_only_stores:
  assumes "range Scratch \<subseteq> R" and "Npy (base outputs) \<in> R" and "only_stores R st0 st"
  shows "only_stores R st0 (buffered_block ev inputs outputs pars time k st)"
  apply (rule buffered_block_invariant [where I = "only_stores R st0"])
  by (rule step_to_scratch [OF assms(1)] step_to_elem2 [OF assms(2)]
        step_kernel_scratch [OF assms(1), where b = Buf_out] k_out.simps assms(3) | assumption)+

lemma multi_buffered_only_stores:
  assumes "range Scratch \<subseteq> R" and "Npy (base outputs) \<in> R" and "only_stores R st0 st"
  shows "only_stores R st0 (multi_buffered ev inputs outputs pars time n st)"
  apply (rule multi_buffered_invariant [where I = "only_stores R st0"])
  by (rule buffered_block_only_stores [OF assms(1,2)] buffered_point_only_stores [OF assms(1,2)]
        assms(3) | assumption)+

lemma multi_zero_copy_only_stores:
  assumes "Npy (base outputs) \<in> R" and "only_stores R st0 st"
  shows "only_stores R st0 (multi_zero_copy ev (arr_data outputs) idt pd td n st)"
  apply (rule multi_zero_copy_invariant [where I = "only_stores R st0"])
   apply (rule step_kernel_array [OF assms(1)])
    apply blast
   apply assumption
  by (rule assms(2))

lemma eval_single_only_stores:
  assumes "range Scratch \<subseteq> R" and "Npy (base outputs) \<in> R"
  shows "only_stores R st (eval_single ev zc inputs outputs pars time st)"
proof (cases zc)
  case True
  have "\<exists>k. k_out (Scal (arr_data outputs) (arr_data inputs) (data_opt pars) (data_opt time))
          = ptr_add (arr_data outputs) k"
    by (rule exI [of _ 0]) (simp add: arr_data_def)
  then have "only_stores R st
          (invoke ev (Scal (arr_data outputs) (arr_data inputs) (data_opt pars) (data_opt time)) st)"
    by (rule step_kernel_array [OF assms(2)]) (rule only_stores_refl)
  with True show ?thesis by (simp add: eval_single_def)
next
  case False
  then show ?thesis
    using single_buffered_only_stores [OF assms only_stores_refl] by (simp add: eval_single_def)
qed

lemma eval_multi_only_stores:
  assumes "range Scratch \<subseteq> R" and "Npy (base outputs) \<in> R"
  shows "only_stores R st (eval_multi ev zc inputs outputs pars time st)"
proof (cases zc)
  case True
  then show ?thesis
    unfolding eval_multi_def Let_def
    by (simp add: multi_zero_copy_only_stores [OF assms(2) only_stores_refl])
next
  case False
  then show ?thesis
    unfolding eval_multi_def Let_def
    by (simp add: multi_buffered_only_stores [OF assms only_stores_refl])
qed

lemma klog_pyreal_ensure_array: "klog (pyreal_ensure_array a p st) = klog st"
  unfolding pyreal_ensure_array_def
  by (rule fold_invariant [where I = "\<lambda>s. klog s = klog st"]) (auto simp: klog_store)

lemma ensure_only_stores: "only_stores {Npy (base a)} st (pyreal_ensure_array a p st)"
  unfolding pyreal_ensure_array_def
proof (rule fold_invariant [where I = "only_stores {Npy (base a)} st"])
  fix x and s :: "'a state"
  assume x: "x \<in> set (arr_ptrs a)" and s: "only_stores {Npy (base a)} st s"
  from x obtain off where "x = Ptr (Npy (base a)) off" using arr_ptrs_form by blast
  then have "only_stores {Npy (base a)} s (store x (ensure_slot p (load s x)) s)"
    by (intro only_stores_store) simp
  with s show "only_stores {Npy (base a)} st
      (if slot_prec (load s x) = Some p then s else store x (ensure_slot p (load s x)) s)"
    using only_stores_trans by auto
qed (rule only_stores_refl)

section \<open>An outputs array of another dtype\<close>

lemma call_tail_only_stores:
  assumes "call_tail ev inputs outputs pars time st = (r, st')"
  shows "only_stores (range Scratch \<union> {Npy (base outputs)}) st st'"
proof -
  let ?R = "range Scratch \<union> {Npy (base outputs)}"
  let ?st1 = "if is_real ev then pyreal_ensure_array outputs (prec ev) st else st"
  have 1: "only_stores ?R st ?st1"
    using only_stores_mono [OF ensure_only_stores [of outputs st "prec ev"], of ?R]
    by (simp add: only_stores_refl)
  have 2: "only_stores ?R ?st1 (eval_multi ev zc inputs outputs pars time ?st1)" for zc
    by (rule eval_multi_only_stores) auto
  have 3: "only_stores ?R ?st1 (eval_single ev zc inputs outputs pars time ?st1)" for zc
    by (rule eval_single_only_stores) auto
  have "st' = st \<or> st' = ?st1 \<or> (\<exists>zc. st' = eval_multi ev zc inputs outputs pars time ?st1)
      \<or> (\<exists>zc. st' = eval_single ev zc inputs outputs pars time ?st1)"
    using assms by (auto simp: call_tail_def Let_def split: if_splits option.splits)
  then show ?thesis
    using 1 only_stores_trans [OF 1 2] only_stores_trans [OF 1 3] only_stores_refl [of ?R st]
    by auto
qed


section \<open>The state of the buffers when validation fails\<close>

lemmas ex_real_defs = ex_real_add_def ex_real_cfunc_def ex_real_heap_def ex_real_state_def
  ex_real_arr_def ex_env_def num_val_def

lemma slot_prec_ensure_slot [simp]: "slot_prec (ensure_slot p x) = Some p"
  by (cases x) auto

lemma ensure_heap:
  fixes st :: "'v::zero state"
  shows "heap (pyreal_ensure_array a p st) b off = heap st b off
   \<or> (Ptr (Npy b) off \<in> set (arr_ptrs a) \<and> slot_prec (heap st b off) \<noteq> Some p
      \<and> heap (pyreal_ensure_array a p st) b off = ensure_slot p (heap st b off))"
proof -
  let ?I = "\<lambda>s :: 'v state. \<forall>b off. heap s b off = heap st b off
     \<or> (Ptr (Npy b) off \<in> set (arr_ptrs a) \<and> slot_prec (heap st b off) \<noteq> Some p
        \<and> heap s b off = ensure_slot p (heap st b off))"
  have "?I (pyreal_ensure_array a p st)"
    unfolding pyreal_ensure_array_def
  proof (rule fold_invariant [where I = ?I])
    fix x s assume x: "x \<in> set (arr_ptrs a)" and s: "?I s"
    from x obtain o1 where o1: "x = Ptr (Npy (base a)) o1" using arr_ptrs_form by blast
    show "?I (if slot_prec (load s x) = Some p then s else store x (ensure_slot p (load s x)) s)"
    proof (cases "slot_prec (load s x) = Some p")
      case True
      with s show ?thesis by simp
    next
      case False
      then have np: "slot_prec (heap s (base a) o1) \<noteq> Some p" using o1 by simp
      with s have same: "heap s (base a) o1 = heap st (base a) o1"
        by (metis slot_prec_ensure_slot)
      have "heap (store x (ensure_slot p (load s x)) s) b off = heap st b off
        \<or> (Ptr (Npy b) off \<in> set (arr_ptrs a) \<and> slot_prec (heap st b off) \<noteq> Some p
           \<and> heap (store x (ensure_slot p (load s x)) s) b off = ensure_slot p (heap st b off))"
        for b off
      proof (cases "b = base a \<and> off = o1")
        case True
        with o1 x np same show ?thesis by (simp add: store.simps)
      next
        case False
        then have "heap (store x (ensure_slot p (load s x)) s) b off = heap s b off"
          using o1 by (auto simp: store.simps)
        with s show ?thesis by metis
      qed
      with False show ?thesis by simp
    qed
  qed simp
  then show ?thesis by blast
qed

lemma scratch_pyreal_ensure_array: "scratch (pyreal_ensure_array a p st) = scratch st"
  using ensure_only_stores [of a st p] by (auto simp: only_stores_def)

text \<open>
  C4 as stated fails for \<^verbatim>\<open>mppp::real\<close>: the outputs array is normalized to the working
  precision (line 389) before the parameters and the time are validated (lines 394--486).
  Here the parameters array has two elements where the function has one parameter: the call
  fails with a size mismatch, no kernel has run, and the slot of the caller's outputs array,
  which held a value of precision 53, has been rewritten at precision 100.
\<close>

theorem outputs_normalized_before_failure:
  "fst (call ex_env ex_real_cfunc (ex_real_arr 0 [1]) (Some (ex_real_arr 1 [1]))
          (Some (ex_real_arr 2 [2])) None ex_real_state) = Inl SizeMismatch
   \<and> klog (snd (call ex_env ex_real_cfunc (ex_real_arr 0 [1]) (Some (ex_real_arr 1 [1]))
          (Some (ex_real_arr 2 [2])) None ex_real_state)) = []
   \<and> heap ex_real_state 1 0 = Num 53 7
   \<and> heap (snd (call ex_env ex_real_cfunc (ex_real_arr 0 [1]) (Some (ex_real_arr 1 [1]))
          (Some (ex_real_arr 2 [2])) None ex_real_state)) 1 0 = Num 100 7"
  by (simp add: call_defs ex_real_defs Let_def store.simps)

section \<open>Which heap slots an evaluation stores to\<close>

lemma written_store: "written (store p v s) = written s \<union> slot_of p"
  by (induction p v s rule: store.induct) (auto simp: store.simps)

lemma written_copy_slot: "written (copy_slot dst src s) = written s \<union> slot_of dst"
  by (simp add: copy_slot_def written_store)

lemma kept_store: "A \<subseteq> written s \<Longrightarrow> A \<subseteq> written (store p v s)"
  by (auto simp: written_store)

lemma kept_copy_slot: "A \<subseteq> written s \<Longrightarrow> A \<subseteq> written (copy_slot dst src s)"
  by (auto simp: written_copy_slot)

lemma kept_fold:
  assumes "\<And>x s. A \<subseteq> written s \<Longrightarrow> A \<subseteq> written (f x s)" and "A \<subseteq> written st"
  shows "A \<subseteq> written (fold f xs st)"
  by (rule fold_invariant [where I = "\<lambda>s. A \<subseteq> written s"]) (use assms in auto)

lemma covers_fold:
  assumes keep: "\<And>A x s. A \<subseteq> written s \<Longrightarrow> A \<subseteq> written (f x s)"
    and adds: "\<And>x s. x \<in> set xs \<Longrightarrow> g x \<subseteq> written (f x s)"
  shows "(\<Union>x \<in> set xs. g x) \<subseteq> written (fold f xs st)"
  using adds
proof (induction xs arbitrary: st)
  case Nil
  show ?case by simp
next
  case (Cons x xs)
  have "g x \<subseteq> written (f x st)" using Cons.prems by simp
  then have 1: "g x \<subseteq> written (fold f xs (f x st))"
    using keep by (intro kept_fold) auto
  have 2: "(\<Union>y \<in> set xs. g y) \<subseteq> written (fold f xs (f x st))"
    by (rule Cons.IH) (use Cons.prems in simp)
  from 1 2 show ?case by simp
qed

lemma kept_run_kernel:
  assumes "A \<subseteq> written st"
  shows "A \<subseteq> written (run_kernel ev f w s0 out inp par tm st)"
  by (rule run_kernel_invariant [where I = "\<lambda>s. A \<subseteq> written s"])
     (rule kept_store, assumption, rule assms)

lemma kept_invoke: "A \<subseteq> written st \<Longrightarrow> A \<subseteq> written (invoke ev c st)"
  by (cases c) (simp_all add: invoke.simps kept_run_kernel)

lemma covers_run_kernel:
  "(\<Union>j \<in> set [0..<nouts ev]. \<Union>l \<in> set [0..<w]. slot_of (ptr_add out (int (j * s0 + l))))
     \<subseteq> written (run_kernel ev f w s0 out inp par tm st)"
  unfolding run_kernel_def Let_def
proof (rule covers_fold)
  fix A x and s :: "'a state"
  assume "A \<subseteq> written s"
  then show "A \<subseteq> written (fold (\<lambda>l. store (ptr_add out (int (x * s0 + l)))
              (f (gather_ptr st inp (nvars ev) w s0) (gather_ptr st par (nparams ev) w s0)
                 (if is_time_dependent ev then gather_ptr st tm 1 w s0 else []) (x * w + l)))
            [0..<w] s)"
    by (intro kept_fold kept_store)
next
  fix x and s :: "'a state"
  show "(\<Union>l \<in> set [0..<w]. slot_of (ptr_add out (int (x * s0 + l))))
     \<subseteq> written (fold (\<lambda>l. store (ptr_add out (int (x * s0 + l)))
              (f (gather_ptr st inp (nvars ev) w s0) (gather_ptr st par (nparams ev) w s0)
                 (if is_time_dependent ev then gather_ptr st tm 1 w s0 else []) (x * w + l)))
            [0..<w] s)"
    by (rule covers_fold) (auto simp: written_store)
qed

lemma covers_run_kernel_slot:
  assumes "j < nouts ev" and "l < w"
  shows "slot_of (ptr_add out (int (j * s0 + l)))
           \<subseteq> written (run_kernel ev f w s0 out inp par tm st)"
proof -
  have "slot_of (ptr_add out (int (j * s0 + l)))
      \<subseteq> (\<Union>j \<in> set [0..<nouts ev]. \<Union>l \<in> set [0..<w]. slot_of (ptr_add out (int (j * s0 + l))))"
  proof (rule subsetI)
    fix x assume x: "x \<in> slot_of (ptr_add out (int (j * s0 + l)))"
    have j: "j \<in> set [0..<nouts ev]" and l: "l \<in> set [0..<w]" using assms by simp_all
    from l x have "x \<in> (\<Union>l \<in> set [0..<w]. slot_of (ptr_add out (int (j * s0 + l))))"
      by (rule UN_I)
    with j show "x \<in> (\<Union>j \<in> set [0..<nouts ev]. \<Union>l \<in> set [0..<w].
        slot_of (ptr_add out (int (j * s0 + l))))"
      by (rule UN_I)
  qed
  then show ?thesis using covers_run_kernel by (rule subset_trans)
qed

lemma written_klog_update [simp]: "written (s\<lparr>klog := l\<rparr>) = written s"
  by simp

lemma covers_invoke_Scal:
  "j < nouts ev \<Longrightarrow> slot_of (ptr_add out (int j)) \<subseteq> written (invoke ev (Scal out i p t) s)"
  using covers_run_kernel_slot [of j ev 0 1 out 1] by (simp add: invoke.simps)

lemma covers_invoke_Scal_s:
  "j < nouts ev \<Longrightarrow> slot_of (ptr_add out (int (j * n))) \<subseteq> written (invoke ev (Scal_s out i p t n) s)"
  using covers_run_kernel_slot [of j ev 0 1 out n] by (simp add: invoke.simps)

lemma covers_invoke_Batch_s:
  "j < nouts ev \<Longrightarrow> l < simd_size ev \<Longrightarrow>
     slot_of (ptr_add out (int (j * n + l))) \<subseteq> written (invoke ev (Batch_s out i p t n) s)"
  using covers_run_kernel_slot [of j ev l "simd_size ev" out n] by (simp add: invoke.simps)

lemma covers_fold_member:
  assumes keep: "\<And>A x s. A \<subseteq> written s \<Longrightarrow> A \<subseteq> written (f x s)"
    and adds: "\<And>s. B \<subseteq> written (f x s)" and mem: "x \<in> set xs"
  shows "B \<subseteq> written (fold f xs st)"
proof -
  have "(\<Union>y \<in> set xs. (if y = x then B else {})) \<subseteq> written (fold f xs st)"
    by (rule covers_fold [OF keep]) (use adds in auto)
  with mem show ?thesis by (auto split: if_splits)
qed

lemma concat_map_singleton: "concat (map (\<lambda>i. [f i]) xs) = map f xs"
  by (induction xs) auto

lemma offsets_1d: "offsets [n] (s # ss) = map (\<lambda>i. int i * s) [0..<n]"
  by (simp add: concat_map_singleton)

lemma offsets_2d:
  "offsets [n, m] (s0 # s1 # ss)
     = concat (map (\<lambda>i. map (\<lambda>j. int i * s0 + int j * s1) [0..<m]) [0..<n])"
  by (simp add: concat_map_singleton o_def)

lemma arr_slots_1d:
  assumes "shape a = [n]"
  shows "arr_slots a \<subseteq> {(base a, offset a + int i * strides a ! 0) | i. i < n}"
proof (cases "strides a")
  case Nil
  with assms show ?thesis by (simp add: arr_slots_def arr_ptrs_def)
next
  case (Cons s ss)
  with assms show ?thesis
    by (auto simp: arr_slots_def arr_ptrs_def offsets_1d arr_data_def)
qed

lemma arr_slots_2d:
  assumes "shape a = [n, m]"
  shows "arr_slots a
    \<subseteq> {(base a, offset a + (int i * strides a ! 0 + int j * strides a ! 1)) | i j. i < n \<and> j < m}"
proof (cases "strides a")
  case Nil
  with assms show ?thesis by (simp add: arr_slots_def arr_ptrs_def)
next
  case (Cons s0 ss)
  show ?thesis
  proof (cases ss)
    case Nil
    with Cons assms show ?thesis by (simp add: arr_slots_def arr_ptrs_def)
  next
    case (Cons s1 ss')
    with \<open>strides a = s0 # ss\<close> assms show ?thesis
      by (auto simp: arr_slots_def arr_ptrs_def offsets_2d arr_data_def) blast
  qed
qed

lemma slot_of_arr_data [simp]: "slot_of (ptr_add (arr_data a) k) = {(base a, offset a + k)}"
  by (simp add: arr_data_def)

lemma slot_of_elem1 [simp]: "slot_of (elem1 a i) = {(base a, offset a + int i * strides a ! 0)}"
  by (simp add: elem1_def arr_data_def)

lemma slot_of_elem2 [simp]:
  "slot_of (elem2 a i j) = {(base a, offset a + (int i * strides a ! 0 + int j * strides a ! 1))}"
  by (simp add: elem2_def arr_data_def)

lemma kept_fold_from:
  assumes "A \<subseteq> written st" and "\<And>x s. A \<subseteq> written s \<Longrightarrow> A \<subseteq> written (f x s)"
  shows "A \<subseteq> written (fold f xs st)"
  using assms(2) assms(1) by (rule kept_fold)

lemma slot_of_arr_data2:
  "slot_of (ptr_add (ptr_add (arr_data a) k) m) = {(base a, offset a + (k + m))}"
  by (simp add: arr_data_def add.assoc)

lemma covers_single_zero_copy:
  assumes "j < nouts ev"
  shows "(base out, offset out + int j)
           \<in> written (invoke ev (Scal (arr_data out) inp par tm) st)"
  using covers_invoke_Scal [OF assms, of "arr_data out" inp par tm st] by simp

lemma covers_single_buffered:
  assumes "i < nouts ev"
  shows "(base out, offset out + int i * strides out ! 0)
           \<in> written (single_buffered ev inputs out pars time st)"
proof -
  have "slot_of (elem1 out i) \<subseteq> written (single_buffered ev inputs out pars time st)"
    unfolding single_buffered_def Let_def
    by (rule covers_fold_member [where x = i])
       (use assms in \<open>auto simp: written_copy_slot simp del: slot_of_elem1\<close>)
  then show ?thesis by simp
qed

lemma kept_buffered_point:
  assumes "A \<subseteq> written st"
  shows "A \<subseteq> written (buffered_point ev inputs out pars time k st)"
  apply (rule buffered_point_invariant [where I = "\<lambda>s. A \<subseteq> written s"])
  by (rule kept_copy_slot kept_invoke assms | assumption)+

lemma kept_buffered_block:
  assumes "A \<subseteq> written st"
  shows "A \<subseteq> written (buffered_block ev inputs out pars time k st)"
  apply (rule buffered_block_invariant [where I = "\<lambda>s. A \<subseteq> written s"])
  by (rule kept_copy_slot kept_invoke assms | assumption)+

lemma covers_buffered_point:
  assumes "i < nouts ev"
  shows "slot_of (elem2 out i k) \<subseteq> written (buffered_point ev inputs out pars time k st)"
  unfolding buffered_point_def Let_def
  by (rule covers_fold_member [where x = i])
     (use assms in \<open>auto simp: written_copy_slot simp del: slot_of_elem2\<close>)

lemma covers_buffered_block:
  assumes "i < nouts ev" and "j < simd_size ev"
  shows "slot_of (elem2 out i (k * simd_size ev + j))
           \<subseteq> written (buffered_block ev inputs out pars time k st)"
  unfolding buffered_block_def Let_def
proof (rule covers_fold_member [where x = i])
  fix A x and s :: "'a state"
  assume "A \<subseteq> written s"
  then show "A \<subseteq> written (fold (\<lambda>j. copy_slot (elem2 out x (k * simd_size ev + j))
                (ptr_add (buf_ptr Buf_out) (int (x * simd_size ev + j)))) [0..<simd_size ev] s)"
    by (intro kept_fold kept_copy_slot)
next
  fix s :: "'a state"
  show "slot_of (elem2 out i (k * simd_size ev + j))
      \<subseteq> written (fold (\<lambda>j. copy_slot (elem2 out i (k * simd_size ev + j))
                (ptr_add (buf_ptr Buf_out) (int (i * simd_size ev + j)))) [0..<simd_size ev] s)"
    by (rule covers_fold_member [where x = j])
       (use assms in \<open>auto simp: written_copy_slot simp del: slot_of_elem2\<close>)
qed (use assms in simp)

lemma block_of_point:
  fixes c n w :: nat
  assumes "c < n div w * w"
  shows "c div w < n div w \<and> c mod w < w \<and> c = c div w * w + c mod w"
proof -
  from assms have w: "0 < w" by (cases w) auto
  from assms have "c div w < n div w" by (simp add: less_mult_imp_div_less)
  with w show ?thesis by simp
qed

lemma covers_multi_buffered:
  assumes "i < nouts ev" and "c < n"
  shows "slot_of (elem2 out i c) \<subseteq> written (multi_buffered ev inputs out pars time n st)"
proof (cases "c < n div simd_size ev * simd_size ev")
  case True
  let ?W = "simd_size ev"
  note b = block_of_point [OF True]
  have "slot_of (elem2 out i (c div ?W * ?W + c mod ?W))
      \<subseteq> written (fold (buffered_block ev inputs out pars time) [0..<n div ?W] st)"
  proof (rule covers_fold_member [where x = "c div ?W"])
    show "slot_of (elem2 out i (c div ?W * ?W + c mod ?W))
        \<subseteq> written (buffered_block ev inputs out pars time (c div ?W) s)" for s
      by (rule covers_buffered_block) (use assms b in simp_all)
    show "c div ?W \<in> set [0..<n div ?W]" using b by simp
  qed (rule kept_buffered_block)
  then have "slot_of (elem2 out i c)
      \<subseteq> written (fold (buffered_block ev inputs out pars time) [0..<n div ?W] st)"
    using b by simp
  then show ?thesis
    unfolding multi_buffered_def Let_def
    by (rule kept_fold_from) (rule kept_buffered_point)
next
  case False
  show ?thesis
    unfolding multi_buffered_def Let_def
  proof (rule covers_fold_member [where x = c])
    show "slot_of (elem2 out i c) \<subseteq> written (buffered_point ev inputs out pars time c s)" for s
      by (rule covers_buffered_point) (rule assms(1))
    show "c \<in> set [n div simd_size ev * simd_size ev..<n]" using False assms by simp
  qed (rule kept_buffered_point)
qed

lemma covers_multi_zero_copy:
  assumes "i < nouts ev" and "c < n"
  shows "(base out, offset out + (int i * int n + int c))
           \<in> written (multi_zero_copy ev (arr_data out) ind pd td n st)"
proof (cases "c < n div simd_size ev * simd_size ev")
  case True
  let ?W = "simd_size ev"
  let ?b = "\<lambda>k. Batch_s (ptr_add (arr_data out) (int (k * ?W)))
                   (if 0 < nvars ev then ptr_add ind (int (k * ?W)) else Null)
                   (if 0 < nparams ev then ptr_add pd (int (k * ?W)) else Null)
                   (if is_time_dependent ev then ptr_add td (int (k * ?W)) else Null) n"
  note b = block_of_point [OF True]
  have cov: "slot_of (ptr_add (ptr_add (arr_data out) (int (c div ?W * ?W))) (int (i * n + c mod ?W)))
      \<subseteq> written (fold (\<lambda>k. invoke ev (?b k)) [0..<n div ?W] st)"
  proof (rule covers_fold_member [where x = "c div ?W"])
    show "slot_of (ptr_add (ptr_add (arr_data out) (int (c div ?W * ?W))) (int (i * n + c mod ?W)))
        \<subseteq> written (invoke ev (?b (c div ?W)) s)" for s
      by (rule covers_invoke_Batch_s) (use assms b in simp_all)
    show "c div ?W \<in> set [0..<n div ?W]" using b by simp
  qed (rule kept_invoke)
  have e: "int (c div ?W * ?W) + int (i * n + c mod ?W) = int i * int n + int c"
  proof -
    have "int (c mod ?W + ?W * (c div ?W)) = int c" by simp
    then have "int (c mod ?W) + int ?W * int (c div ?W) = int c"
      by (simp only: of_nat_add of_nat_mult)
    then show ?thesis by (simp add: algebra_simps)
  qed
  have "slot_of (ptr_add (ptr_add (arr_data out) (int (c div ?W * ?W))) (int (i * n + c mod ?W)))
      = {(base out, offset out + (int i * int n + int c))}"
    by (simp only: slot_of_arr_data2 e)
  with cov have "{(base out, offset out + (int i * int n + int c))}
      \<subseteq> written (fold (\<lambda>k. invoke ev (?b k)) [0..<n div ?W] st)"
    by (simp only:)
  then have "{(base out, offset out + (int i * int n + int c))}
      \<subseteq> written (multi_zero_copy ev (arr_data out) ind pd td n st)"
    unfolding multi_zero_copy_def Let_def
    by (rule kept_fold_from) (rule kept_invoke)
  then show ?thesis by simp
next
  case False
  let ?s = "\<lambda>k. Scal_s (ptr_add (arr_data out) (int k))
                   (if 0 < nvars ev then ptr_add ind (int k) else Null)
                   (if 0 < nparams ev then ptr_add pd (int k) else Null)
                   (if is_time_dependent ev then ptr_add td (int k) else Null) n"
  have "slot_of (ptr_add (ptr_add (arr_data out) (int c)) (int (i * n)))
      \<subseteq> written (multi_zero_copy ev (arr_data out) ind pd td n st)"
    unfolding multi_zero_copy_def Let_def
  proof (rule covers_fold_member [where x = c])
    show "slot_of (ptr_add (ptr_add (arr_data out) (int c)) (int (i * n)))
        \<subseteq> written (invoke ev (?s c) s)" for s
      by (rule covers_invoke_Scal_s) (rule assms(1))
    show "c \<in> set [n div simd_size ev * simd_size ev..<n]" using False assms by simp
  qed (rule kept_invoke)
  then show ?thesis unfolding slot_of_arr_data2 by (simp add: add.commute)
qed

section \<open>A caller-supplied outputs array\<close>

text \<open>
  C6 as stated fails: an outputs array that cannot be written to is accepted when its dtype
  differs from the dtype of the evaluator, because the dtype enforcement (lines 262--264)
  replaces it by a writeable copy before the writeability check (line 327).
\<close>

theorem nonwriteable_outputs_accepted:
  "\<not> writeable ex_out_f32
   \<and> fst (call ex_env ex_cfunc (ex_arr 0 [2]) (Some ex_out_f32) None None ex_state)
       = Inr \<lparr>base = 2, offset = 0, shape = [1], strides = [1], dtype = 12, writeable = True\<rparr>"
  by (simp add: call_defs ex_defs ex_out_f32_def Let_def store.simps)

lemma shape_1d: "ndim a = 1 \<Longrightarrow> shape a ! 0 = n \<Longrightarrow> shape a = [n]"
  by (cases "shape a") (auto simp: ndim_def)

lemma shape_2d: "ndim a = 2 \<Longrightarrow> shape a ! 0 = n \<Longrightarrow> shape a ! 1 = m \<Longrightarrow> shape a = [n, m]"
proof -
  assume a: "ndim a = 2" "shape a ! 0 = n" "shape a ! 1 = m"
  then obtain x xs where x: "shape a = x # xs" by (cases "shape a") (auto simp: ndim_def)
  with a obtain y where "xs = [y]" by (cases xs) (auto simp: ndim_def)
  with x a show ?thesis by simp
qed

lemma zero_copy_carray_outputs:
  "zero_copy inputs out pars time \<Longrightarrow> is_npy_array_carray out"
  by (auto simp: zero_copy_def split: if_splits)

lemma eval_covers_outputs:
  assumes nd: "ndim inputs = 1 \<or> ndim inputs = 2" and "ndim out = ndim inputs"
    and "shape out ! 0 = nouts ev" and "ndim inputs = 2 \<longrightarrow> shape out ! 1 = shape inputs ! 1"
    and zc: "zc \<longrightarrow> is_npy_array_carray out"
  shows "arr_slots out
     \<subseteq> written (if ndim inputs = 2 then eval_multi ev zc inputs out pars time st
                 else eval_single ev zc inputs out pars time st)"
proof (cases "ndim inputs = 2")
  case False
  with nd assms have sh: "shape out = [nouts ev]" by (auto intro: shape_1d)
  note sl = arr_slots_1d [OF sh]
  show ?thesis
  proof (cases zc)
    case True
    with zc sh have "strides out = [1]" by (simp add: is_npy_array_carray_def)
    with sl have "arr_slots out \<subseteq> {(base out, offset out + int i) | i. i < nouts ev}" by simp
    also have "\<dots> \<subseteq> written (invoke ev (Scal (arr_data out) (arr_data inputs) (data_opt pars)
                                 (data_opt time)) st)"
      using covers_single_zero_copy by blast
    finally show ?thesis using True False by (simp add: eval_single_def)
  next
    case zf: False
    have "{(base out, offset out + int i * strides out ! 0) | i. i < nouts ev}
        \<subseteq> written (single_buffered ev inputs out pars time st)"
      using covers_single_buffered by blast
    with sl show ?thesis using zf False by (simp add: eval_single_def)
  qed
next
  case True
  let ?N = "shape inputs ! 1"
  from True assms have sh: "shape out = [nouts ev, ?N]" by (auto intro: shape_2d)
  note sl = arr_slots_2d [OF sh]
  show ?thesis
  proof (cases zc)
    case zt: True
    with zc sh have "strides out = [int ?N, 1]" by (simp add: is_npy_array_carray_def)
    with sl have "arr_slots out
        \<subseteq> {(base out, offset out + (int i * int ?N + int j)) | i j. i < nouts ev \<and> j < ?N}"
      by simp
    also have "\<dots> \<subseteq> written (multi_zero_copy ev (arr_data out) (arr_data inputs) (data_opt pars)
                                 (data_opt time) ?N st)"
      using covers_multi_zero_copy by blast
    finally show ?thesis using True zt by (simp add: eval_multi_def Let_def)
  next
    case zf: False
    have "{(base out, offset out + (int i * strides out ! 0 + int j * strides out ! 1)) | i j.
            i < nouts ev \<and> j < ?N}
        \<subseteq> written (multi_buffered ev inputs out pars time ?N st)"
    proof (rule subsetI)
      fix x assume "x \<in> {(base out, offset out + (int i * strides out ! 0 + int j * strides out ! 1))
          | i j. i < nouts ev \<and> j < ?N}"
      then obtain i j where ij: "i < nouts ev" "j < ?N"
        and x: "x = (base out, offset out + (int i * strides out ! 0 + int j * strides out ! 1))"
        by blast
      from covers_multi_buffered [OF ij, of out inputs pars time st] x
      show "x \<in> written (multi_buffered ev inputs out pars time ?N st)" by simp
    qed
    with sl show ?thesis using True zf by (simp add: eval_multi_def Let_def)
  qed
qed

text \<open>
  C6, amended: for a caller-supplied outputs array that has the dtype of the evaluator:
  if it cannot be written to, the call fails, and it fails with the NonWritableOutput error
  unless the conversion of the arguments or one of the checks that precede the outputs
  validation has already failed; and if the call succeeds, the array is writeable, has the
  number of dimensions of the inputs, \<open>nouts\<close> as its first dimension and, in batch mode,
  the second dimension of the inputs, it is the array returned by the call, and every one of
  its slots has been stored to. (An outputs array of another dtype is replaced by a converted
  copy, see C9.)
\<close>

theorem supplied_outputs_checked_and_reused:
  assumes "dtype a = dt ev"
  shows "(\<not> writeable a \<longrightarrow>
            (\<exists>e st'. call env ev i (Some a) p t st = (Inl e, st')
               \<and> (e \<noteq> NonWritableOutput \<longrightarrow>
                    (\<exists>s. convert_args env ev i (Some a) p t st = Inl (e, s))
                    \<or> (\<exists>inputs oo pars time s.
                          convert_args env ev i (Some a) p t st = Inr (inputs, oo, pars, time, s)
                          \<and> check_head ev inputs pars time t = Some e))))
         \<and> (\<forall>out st'. call env ev i (Some a) p t st = (Inr out, st') \<longrightarrow>
               writeable a \<and> out = a \<and> ndim a = ndim i \<and> shape a ! 0 = nouts ev
               \<and> (ndim i = 2 \<longrightarrow> shape a ! 1 = shape i ! 1)
               \<and> arr_slots a \<subseteq> written st')"
proof (rule conjI)
  show "\<not> writeable a \<longrightarrow> (\<exists>e st'. call env ev i (Some a) p t st = (Inl e, st')
               \<and> (e \<noteq> NonWritableOutput \<longrightarrow>
                    (\<exists>s. convert_args env ev i (Some a) p t st = Inl (e, s))
                    \<or> (\<exists>inputs oo pars time s.
                          convert_args env ev i (Some a) p t st = Inr (inputs, oo, pars, time, s)
                          \<and> check_head ev inputs pars time t = Some e)))"
  proof (rule impI)
  assume nw: "\<not> writeable a"
  show "\<exists>e st'. call env ev i (Some a) p t st = (Inl e, st')
               \<and> (e \<noteq> NonWritableOutput \<longrightarrow>
                    (\<exists>s. convert_args env ev i (Some a) p t st = Inl (e, s))
                    \<or> (\<exists>inputs oo pars time s.
                          convert_args env ev i (Some a) p t st = Inr (inputs, oo, pars, time, s)
                          \<and> check_head ev inputs pars time t = Some e))"
  proof (cases "convert_args env ev i (Some a) p t st")
    case (Inl x)
    obtain e s where "x = (e, s)" by (cases x)
    with Inl show ?thesis by (auto simp: call_def)
  next
    case (Inr x)
    obtain inputs oo pars time s where x: "x = (inputs, oo, pars, time, s)" by (cases x)
    note c = Inr [unfolded x]
    from convert_args_Inr(3) [OF c] assms have oo: "oo = Some a"
      by (cases oo) (auto simp: conv_of_def)
    show ?thesis
    proof (cases "check_head ev inputs pars time t")
      case (Some e)
      with c show ?thesis by (auto simp: call_def)
    next
      case None
      have "prepare_outputs ev inputs oo s = (Inl NonWritableOutput, s)"
        using oo nw by (simp add: prepare_outputs_def Let_def)
      with c None show ?thesis by (auto simp: call_def)
    qed
  qed
  qed
next
  show "\<forall>out st'. call env ev i (Some a) p t st = (Inr out, st') \<longrightarrow>
               writeable a \<and> out = a \<and> ndim a = ndim i \<and> shape a ! 0 = nouts ev
               \<and> (ndim i = 2 \<longrightarrow> shape a ! 1 = shape i ! 1)
               \<and> arr_slots a \<subseteq> written st'"
  proof (intro allI impI)
  fix out st'
  assume ok: "call env ev i (Some a) p t st = (Inr out, st')"
  from ok obtain inputs outputs_opt pars time st4 st5 st6 where
    c: "convert_args env ev i (Some a) p t st = Inr (inputs, outputs_opt, pars, time, st4)"
    and h: "check_head ev inputs pars time t = None"
    and po: "prepare_outputs ev inputs outputs_opt st4 = (Inr out, st5)"
    and st': "st' = (if ndim inputs = 2
            then eval_multi ev (zero_copy inputs out pars time) inputs out pars time st6
            else eval_single ev (zero_copy inputs out pars time) inputs out pars time st6)"
    by (rule call_Inr)
  note r = convert_args_Inr [OF c]
  from r(3) assms have oo: "outputs_opt = Some a" by (cases outputs_opt) (auto simp: conv_of_def)
  have nd: "ndim inputs = 1 \<or> ndim inputs = 2"
    using h by (auto simp: check_head_def split: if_splits)
  note o = prepare_outputs_Inr [OF po nd]
  from o(4) oo have oa: "out = a" and w: "writeable a" by auto
  have si: "shape inputs = shape i" using r(2) by (simp add: conv_of_def)
  then have ni: "ndim inputs = ndim i" by (simp add: ndim_def)
  have cov: "arr_slots out \<subseteq> written st'"
    unfolding st'
    by (rule eval_covers_outputs [OF nd o(1) o(2) o(3)]) (auto dest: zero_copy_carray_outputs)
  show "writeable a \<and> out = a \<and> ndim a = ndim i \<and> shape a ! 0 = nouts ev
               \<and> (ndim i = 2 \<longrightarrow> shape a ! 1 = shape i ! 1)
               \<and> arr_slots a \<subseteq> written st'"
    using w oa o(1,2,3) ni si cov by auto
  qed
qed

theorem supplied_outputs_checked_and_reused_witness:
  "dtype (ex_arr 1 [1]) = dt ex_cfunc
   \<and> fst (call ex_env ex_cfunc (ex_arr 0 [2]) (Some ((ex_arr 1 [1])\<lparr>writeable := False\<rparr>))
            None None ex_state) = Inl NonWritableOutput
   \<and> fst (call ex_env ex_cfunc (ex_arr 0 [2]) (Some (ex_arr 1 [1])) None None ex_state)
       = Inr (ex_arr 1 [1])
   \<and> arr_slots (ex_arr 1 [1]) = {(1, 0)}
   \<and> (1, 0) \<in> written (snd (call ex_env ex_cfunc (ex_arr 0 [2]) (Some (ex_arr 1 [1])) None None
                              ex_state))"
proof -
  let ?a = "ex_arr 1 [1]"
  let ?c = "call ex_env ex_cfunc (ex_arr 0 [2]) (Some ?a) None None ex_state"
  have d: "dtype ?a = dt ex_cfunc" by (simp add: ex_arr_def ex_cfunc_def)
  have d': "dtype (?a\<lparr>writeable := False\<rparr>) = dt ex_cfunc" by (simp add: ex_arr_def ex_cfunc_def)
  have n: "fst (call ex_env ex_cfunc (ex_arr 0 [2]) (Some (?a\<lparr>writeable := False\<rparr>))
            None None ex_state) = Inl NonWritableOutput"
    by (simp add: call_defs ex_defs Let_def store.simps)
  have f: "fst ?c = Inr ?a"
    by (simp add: call_defs ex_defs Let_def store.simps)
  have c: "?c = (Inr ?a, snd ?c)" using f by (metis prod.collapse)
  have sl: "arr_slots ?a = {(1, 0)}"
    by (simp add: arr_slots_def arr_ptrs_def arr_data_def ex_arr_def)
  from supplied_outputs_checked_and_reused [OF d, of ex_env "ex_arr 0 [2]" None None ex_state] c
  have "arr_slots ?a \<subseteq> written (snd ?c)" by blast
  with sl have "(1, 0) \<in> written (snd ?c)" by simp
  with d n f sl show ?thesis by simp
qed

section \<open>The two paths of a single evaluation\<close>

lemma fold_store_scratch:
  fixes st :: "'v state" and v :: "nat \<Rightarrow> (nat \<Rightarrow> int \<Rightarrow> 'v slot) \<Rightarrow> 'v slot"
  assumes "n \<le> length (scratch st B)"
  shows "heap (fold (\<lambda>i s. store (Ptr (Scratch B) (int i)) (v i (heap s)) s) [0..<n] st) = heap st
    \<and> klog (fold (\<lambda>i s. store (Ptr (Scratch B) (int i)) (v i (heap s)) s) [0..<n] st) = klog st
    \<and> (\<forall>B'. B' \<noteq> B \<longrightarrow>
          scratch (fold (\<lambda>i s. store (Ptr (Scratch B) (int i)) (v i (heap s)) s) [0..<n] st) B'
            = scratch st B')
    \<and> length (scratch (fold (\<lambda>i s. store (Ptr (Scratch B) (int i)) (v i (heap s)) s) [0..<n] st) B)
        = length (scratch st B)
    \<and> (\<forall>i<n. scratch (fold (\<lambda>i s. store (Ptr (Scratch B) (int i)) (v i (heap s)) s) [0..<n] st) B ! i
          = v i (heap st))"
  using assms
proof (induction n)
  case 0
  show ?case by simp
next
  case (Suc n)
  let ?F = "fold (\<lambda>i s. store (Ptr (Scratch B) (int i)) (v i (heap s)) s) [0..<n] st"
  from Suc have ih: "heap ?F = heap st" "klog ?F = klog st"
    "\<forall>B'. B' \<noteq> B \<longrightarrow> scratch ?F B' = scratch st B'"
    "length (scratch ?F B) = length (scratch st B)"
    "\<forall>i<n. scratch ?F B ! i = v i (heap st)" by simp_all
  have n: "n < length (scratch ?F B)" using Suc.prems ih(4) by simp
  have step: "fold (\<lambda>i s. store (Ptr (Scratch B) (int i)) (v i (heap s)) s) [0..<Suc n] st
      = ?F\<lparr>scratch := (scratch ?F)(B := (scratch ?F B)[n := v n (heap st)])\<rparr>"
    using n ih(1) by (simp add: store.simps)
  show ?case unfolding step using ih n by (auto simp: nth_list_update)
qed

lemma fold_store_heap:
  fixes st :: "'v state" and w :: "nat \<Rightarrow> (sbuf \<Rightarrow> 'v slot list) \<Rightarrow> 'v slot"
  shows "scratch (fold (\<lambda>j s. store (Ptr (Npy b) (off + int j)) (w j (scratch s)) s) [0..<n] st)
           = scratch st
    \<and> klog (fold (\<lambda>j s. store (Ptr (Npy b) (off + int j)) (w j (scratch s)) s) [0..<n] st) = klog st
    \<and> (\<forall>j<n. heap (fold (\<lambda>j s. store (Ptr (Npy b) (off + int j)) (w j (scratch s)) s) [0..<n] st)
                 b (off + int j) = w j (scratch st))"
proof (induction n)
  case 0
  show ?case by simp
next
  case (Suc n)
  let ?G = "fold (\<lambda>j s. store (Ptr (Npy b) (off + int j)) (w j (scratch s)) s) [0..<n] st"
  from Suc have ih: "scratch ?G = scratch st" "klog ?G = klog st"
    "\<forall>j<n. heap ?G b (off + int j) = w j (scratch st)" by simp_all
  have step: "fold (\<lambda>j s. store (Ptr (Npy b) (off + int j)) (w j (scratch s)) s) [0..<Suc n] st
      = ?G\<lparr>heap := (heap ?G)(b := (heap ?G b)(off + int n := w n (scratch st))),
            written := insert (b, off + int n) (written ?G)\<rparr>"
    using ih(1) by (simp add: store.simps)
  show ?case unfolding step using ih by (auto simp: less_Suc_eq)
qed

lemma run_kernel_scalar:
  "run_kernel ev f (Suc 0) (Suc 0) out inp par tm st =
     fold (\<lambda>j. store (ptr_add out (int j))
                 (f (map (\<lambda>i. load st (ptr_add inp (int i))) [0..<nvars ev])
                    (map (\<lambda>i. load st (ptr_add par (int i))) [0..<nparams ev])
                    (if is_time_dependent ev then [load st (ptr_add tm 0)] else []) j))
       [0..<nouts ev] st"
  by (simp add: run_kernel_def gather_ptr_def concat_map_singleton)

lemma load_elem1: "load s (elem1 a i) = heap s (base a) (offset a + int i * strides a ! 0)"
  by (simp add: elem1_def arr_data_def)

lemma load_arr_data: "load s (ptr_add (arr_data a) k) = heap s (base a) (offset a + k)"
  by (simp add: arr_data_def)

lemma copy_to_scratch:
  "copy_slot (ptr_add (buf_ptr B) (int i)) (elem1 a i)
     = (\<lambda>s. store (Ptr (Scratch B) (int i))
               ((\<lambda>i h. h (base a) (offset a + int i * strides a ! 0)) i (heap s)) s)"
  by (rule ext) (simp add: copy_slot_def buf_ptr_def load_elem1)

lemma load_scratch: "i < length (scratch s B) \<Longrightarrow>
    load s (ptr_add (buf_ptr B) (int i)) = scratch s B ! i"
  by (simp add: buf_ptr_def)

lemma contents_carray_1d:
  assumes "shape a = [n]" and "is_npy_array_carray a"
  shows "contents s a = map (\<lambda>j. heap s (base a) (offset a + int j)) [0..<n]"
  using assms
  by (simp add: contents_def arr_ptrs_def is_npy_array_carray_def offsets_1d arr_data_def o_def)

lemma load_klog_update [simp]: "load (s\<lparr>klog := x\<rparr>) q = load s q"
proof (cases q)
  case (Ptr r off)
  then show ?thesis by (cases r) auto
qed auto

lemma zero_copy_single_contents:
  assumes "shape out = [nouts ev]" and "is_npy_array_carray out"
  shows "contents (invoke ev (Scal (arr_data out) inp par tm) st) out
    = map (fptr_scal ev (map (\<lambda>i. load st (ptr_add inp (int i))) [0..<nvars ev])
                        (map (\<lambda>i. load st (ptr_add par (int i))) [0..<nparams ev])
                        (if is_time_dependent ev then [load st (ptr_add tm 0)] else []))
        [0..<nouts ev]"
proof -
  let ?k = "st\<lparr>klog := klog st @ [Scal (arr_data out) inp par tm]\<rparr>"
  let ?F = "fptr_scal ev (map (\<lambda>i. load st (ptr_add inp (int i))) [0..<nvars ev])
                        (map (\<lambda>i. load st (ptr_add par (int i))) [0..<nparams ev])
                        (if is_time_dependent ev then [load st (ptr_add tm 0)] else [])"
  have "invoke ev (Scal (arr_data out) inp par tm) st
      = fold (\<lambda>j s. store (Ptr (Npy (base out)) (offset out + int j))
                      ((\<lambda>j sc. ?F j) j (scratch s)) s) [0..<nouts ev] ?k"
    by (simp add: invoke.simps run_kernel_scalar arr_data_def)
  moreover note fold_store_heap [of "base out" "offset out" "\<lambda>j sc. ?F j" "nouts ev" ?k]
  ultimately have "\<forall>j<nouts ev. heap (invoke ev (Scal (arr_data out) inp par tm) st)
      (base out) (offset out + int j) = ?F j" by simp
  then show ?thesis by (simp add: contents_carray_1d [OF assms])
qed

lemma copy_from_scratch:
  "copy_slot (Ptr (Npy b) off) (ptr_add (buf_ptr B) (int i))
     = (\<lambda>s. store (Ptr (Npy b) off)
               ((\<lambda>i sc. if i < length (sc B) then sc B ! i else Unconstructed) i (scratch s)) s)"
  by (rule ext) (simp add: copy_slot_def buf_ptr_def)

lemma store_scratch_time:
  fixes st :: "'v state"
  assumes "0 < length (scratch st Buf_time)"
  shows "heap (store (Ptr (Scratch Buf_time) 0) x st) = heap st"
    and "klog (store (Ptr (Scratch Buf_time) 0) x st) = klog st"
    and "\<forall>B. B \<noteq> Buf_time \<longrightarrow> scratch (store (Ptr (Scratch Buf_time) 0) x st) B = scratch st B"
    and "length (scratch (store (Ptr (Scratch Buf_time) 0) x st) Buf_time)
           = length (scratch st Buf_time)"
    and "scratch (store (Ptr (Scratch Buf_time) 0) x st) Buf_time ! 0 = x"
  using assms by (simp_all add: store.simps)

lemma invoke_Scal_scratch:
  "invoke ev (Scal (buf_ptr Buf_out) inp par tm) s
     = fold (\<lambda>j. store (Ptr (Scratch Buf_out) (int j))
                 (fptr_scal ev (map (\<lambda>i. load s (ptr_add inp (int i))) [0..<nvars ev])
                    (map (\<lambda>i. load s (ptr_add par (int i))) [0..<nparams ev])
                    (if is_time_dependent ev then [load s (ptr_add tm 0)] else []) j))
         [0..<nouts ev] (s\<lparr>klog := klog s @ [Scal (buf_ptr Buf_out) inp par tm]\<rparr>)"
  by (simp add: invoke.simps run_kernel_scalar buf_ptr_def)

section \<open>The scratch vectors across calls\<close>

lemma length_scratch_store: "length (scratch (store p v s) b) = length (scratch s b)"
  by (induction p v s rule: store.induct) (auto simp: store.simps)

lemma scratch_sized_store: "scratch_sized ev (store p v s) = scratch_sized ev s"
  by (simp add: scratch_sized_def length_scratch_store)

lemma load_store_prec:
  assumes "slot_prec v = Some n" and "slot_prec (load s q) = Some n"
  shows "slot_prec (load (store p v s) q) = Some n"
proof (cases p)
  case Null
  with assms show ?thesis by (simp add: store.simps)
next
  case Invalid
  with assms show ?thesis by (simp add: store.simps)
next
  case (Ptr r off)
  show ?thesis
  proof (cases r)
    case (Npy b)
    show ?thesis
    proof (cases q)
      case (Ptr r' off')
      with assms \<open>p = Ptr r off\<close> Npy show ?thesis
        by (cases r') (auto simp: store.simps split: if_splits)
    qed (use assms in auto)
  next
    case (Scratch b)
    show ?thesis
    proof (cases q)
      case (Ptr r' off')
      with assms \<open>p = Ptr r off\<close> Scratch show ?thesis
        by (cases r') (auto simp: store.simps nth_list_update split: if_splits)
    qed (use assms in auto)
  qed
qed

lemma scratch_store_prec:
  assumes "slot_prec v = Some n" and "list_all (\<lambda>x. slot_prec x = Some n) (scratch s b)"
  shows "list_all (\<lambda>x. slot_prec x = Some n) (scratch (store p v s) b)"
proof (cases p)
  case (Ptr r off)
  show ?thesis
  proof (cases r)
    case (Npy b')
    with Ptr assms show ?thesis by (simp add: store.simps)
  next
    case (Scratch b')
    with Ptr assms show ?thesis
      by (auto simp: store.simps list_all_length nth_list_update)
  qed
qed (use assms in \<open>auto simp: store.simps\<close>)

lemma prec_state_store:
  assumes "prec_state ev Q s" and "slot_prec v = Some (prec ev)"
  shows "prec_state ev Q (store p v s)"
  using assms
  by (auto simp: prec_state_def scratch_sized_store intro: load_store_prec scratch_store_prec)

lemma prec_state_klog: "prec_state ev Q (s\<lparr>klog := l\<rparr>) = prec_state ev Q s"
  by (simp add: prec_state_def scratch_sized_def)

lemma prec_state_copy_from:
  assumes "prec_state ev Q s" and "src \<in> Q"
  shows "prec_state ev Q (copy_slot dst src s)"
  unfolding copy_slot_def
  by (rule prec_state_store [OF assms(1)]) (use assms in \<open>simp add: prec_state_def\<close>)

lemma prec_state_copy_scratch:
  assumes "prec_state ev Q s" and "k < length (scratch s B)"
  shows "prec_state ev Q (copy_slot dst (ptr_add (buf_ptr B) (int k)) s)"
  unfolding copy_slot_def
proof (rule prec_state_store [OF assms(1)])
  have "load s (ptr_add (buf_ptr B) (int k)) = scratch s B ! k"
    using assms(2) by (rule load_scratch)
  moreover have "list_all (\<lambda>x. slot_prec x = Some (prec ev)) (scratch s B)"
    using assms(1) by (simp add: prec_state_def)
  ultimately show "slot_prec (load s (ptr_add (buf_ptr B) (int k))) = Some (prec ev)"
    using assms(2) by (simp add: list_all_length)
qed

lemma run_kernel_invariant_values:
  assumes "\<And>p v s. (\<exists>ins ps ts k. v = f ins ps ts k) \<Longrightarrow> I s \<Longrightarrow> I (store p v s)"
    and "I st"
  shows "I (run_kernel ev f w s0 out inp par tm st)"
  unfolding run_kernel_def Let_def
  by (rule fold2_invariant [where I = I]) (use assms in blast)+

lemma prec_state_invoke_dense:
  assumes "prec_state ev Q s" and "kernels_at_prec ev"
  shows "prec_state ev Q (invoke ev (Scal out inp par tm) s)"
    and "prec_state ev Q (invoke ev (Batch out inp par tm) s)"
proof -
  have a: "(\<exists>ins ps ts k. v = fptr_scal ev ins ps ts k) \<Longrightarrow> slot_prec v = Some (prec ev)" for v
    using assms(2) by (auto simp: kernels_at_prec_def)
  have b: "(\<exists>ins ps ts k. v = fptr_batch ev ins ps ts k) \<Longrightarrow> slot_prec v = Some (prec ev)" for v
    using assms(2) by (auto simp: kernels_at_prec_def)
  show "prec_state ev Q (invoke ev (Scal out inp par tm) s)"
    unfolding invoke.simps
  proof (rule run_kernel_invariant_values [where I = "prec_state ev Q"])
    fix p v and sa :: "'a state"
    assume "\<exists>ins ps ts k. v = fptr_scal ev ins ps ts k" and "prec_state ev Q sa"
    then show "prec_state ev Q (store p v sa)" using a prec_state_store by blast
  qed (simp add: prec_state_klog assms(1))
  show "prec_state ev Q (invoke ev (Batch out inp par tm) s)"
    unfolding invoke.simps
  proof (rule run_kernel_invariant_values [where I = "prec_state ev Q"])
    fix p v and sa :: "'a state"
    assume "\<exists>ins ps ts k. v = fptr_batch ev ins ps ts k" and "prec_state ev Q sa"
    then show "prec_state ev Q (store p v sa)" using b prec_state_store by blast
  qed (simp add: prec_state_klog assms(1))
qed

lemma index_in_rows:
  fixes i j n w :: nat
  assumes "i < n" and "j < w"
  shows "i * w + j < n * w"
proof -
  have "i * w + j < i * w + w" using assms(2) by simp
  also have "\<dots> = Suc i * w" by simp
  also have "\<dots> \<le> n * w" using assms(1) by (intro mult_le_mono1) simp
  finally show ?thesis .
qed

lemma index_below_rows:
  fixes i n w :: nat
  assumes "i < n" and "0 < w"
  shows "i < n * w"
proof -
  from assms(2) obtain w' where w: "w = Suc w'" by (cases w) auto
  have "i < n" by (rule assms(1))
  also have "n \<le> n + n * w'" by simp
  finally show ?thesis using w by simp
qed

lemma point_in_block:
  fixes k j n w :: nat
  assumes "k < n div w" and "j < w"
  shows "k * w + j < n"
proof -
  have "k * w + j < (n div w) * w" using assms by (rule index_in_rows)
  also have "\<dots> \<le> n" by simp
  finally show ?thesis .
qed

lemma prec_state_sizes:
  assumes "prec_state ev Q s"
  shows "length (scratch s Buf_out) = nouts ev * simd_size ev"
  using assms by (simp add: prec_state_def scratch_sized_def)

lemma single_buffered_prec:
  assumes J: "prec_state ev Q st" and kp: "kernels_at_prec ev" and W: "0 < simd_size ev"
    and inQ: "\<And>i. i < nvars ev \<Longrightarrow> elem1 inputs i \<in> Q"
    and parQ: "\<And>p i. pars = Some p \<Longrightarrow> i < nparams ev \<Longrightarrow> elem1 p i \<in> Q"
    and timeQ: "\<And>t. time = Some t \<Longrightarrow> elem1 t 0 \<in> Q"
  shows "prec_state ev Q (single_buffered ev inputs out pars time st)"
proof (rule single_buffered_invariant [where I = "prec_state ev Q"])
  fix i and s :: "'a state"
  assume i: "i < nouts ev" and s: "prec_state ev Q s"
  have "i < length (scratch s Buf_out)"
    using index_below_rows [OF i W] by (simp add: prec_state_sizes [OF s])
  with s show "prec_state ev Q (copy_slot (elem1 out i) (ptr_add (buf_ptr Buf_out) (int i)) s)"
    by (rule prec_state_copy_scratch)
qed (auto intro: prec_state_copy_from prec_state_invoke_dense(1) inQ parQ timeQ kp J)

lemma buffered_point_prec:
  assumes J: "prec_state ev Q st" and kp: "kernels_at_prec ev" and W: "0 < simd_size ev"
    and inQ: "\<And>i. i < nvars ev \<Longrightarrow> elem2 inputs i k \<in> Q"
    and parQ: "\<And>p i. pars = Some p \<Longrightarrow> i < nparams ev \<Longrightarrow> elem2 p i k \<in> Q"
    and timeQ: "\<And>t. time = Some t \<Longrightarrow> elem1 t k \<in> Q"
  shows "prec_state ev Q (buffered_point ev inputs out pars time k st)"
proof (rule buffered_point_invariant [where I = "prec_state ev Q"])
  fix i and s :: "'a state"
  assume i: "i < nouts ev" and s: "prec_state ev Q s"
  have "i < length (scratch s Buf_out)"
    using index_below_rows [OF i W] by (simp add: prec_state_sizes [OF s])
  with s show "prec_state ev Q (copy_slot (elem2 out i k) (ptr_add (buf_ptr Buf_out) (int i)) s)"
    by (rule prec_state_copy_scratch)
qed (auto intro: prec_state_copy_from prec_state_invoke_dense(1) inQ parQ timeQ kp J)

lemma buffered_block_prec:
  assumes J: "prec_state ev Q st" and kp: "kernels_at_prec ev"
    and inQ: "\<And>i j. i < nvars ev \<Longrightarrow> j < simd_size ev
                \<Longrightarrow> elem2 inputs i (k * simd_size ev + j) \<in> Q"
    and parQ: "\<And>p i j. pars = Some p \<Longrightarrow> i < nparams ev \<Longrightarrow> j < simd_size ev
                \<Longrightarrow> elem2 p i (k * simd_size ev + j) \<in> Q"
    and timeQ: "\<And>t j. time = Some t \<Longrightarrow> j < simd_size ev \<Longrightarrow> elem1 t (k * simd_size ev + j) \<in> Q"
  shows "prec_state ev Q (buffered_block ev inputs out pars time k st)"
proof (rule buffered_block_invariant [where I = "prec_state ev Q"])
  fix i j and s :: "'a state"
  assume i: "i < nouts ev" and j: "j < simd_size ev" and s: "prec_state ev Q s"
  have "i * simd_size ev + j < length (scratch s Buf_out)"
    using index_in_rows [OF i j] by (simp add: prec_state_sizes [OF s])
  with s show "prec_state ev Q (copy_slot (elem2 out i (k * simd_size ev + j))
      (ptr_add (buf_ptr Buf_out) (int (i * simd_size ev + j))) s)"
    by (rule prec_state_copy_scratch)
qed (auto intro: prec_state_copy_from prec_state_invoke_dense(2) inQ parQ timeQ kp J)

lemma multi_buffered_prec:
  assumes J: "prec_state ev Q st" and kp: "kernels_at_prec ev" and W: "0 < simd_size ev"
    and inQ: "\<And>i c. i < nvars ev \<Longrightarrow> c < n \<Longrightarrow> elem2 inputs i c \<in> Q"
    and parQ: "\<And>p i c. pars = Some p \<Longrightarrow> i < nparams ev \<Longrightarrow> c < n \<Longrightarrow> elem2 p i c \<in> Q"
    and timeQ: "\<And>t c. time = Some t \<Longrightarrow> c < n \<Longrightarrow> elem1 t c \<in> Q"
  shows "prec_state ev Q (multi_buffered ev inputs out pars time n st)"
proof (rule multi_buffered_invariant [where I = "prec_state ev Q"])
  fix k and s :: "'a state"
  assume k: "k < n div simd_size ev" and s: "prec_state ev Q s"
  show "prec_state ev Q (buffered_block ev inputs out pars time k s)"
    by (rule buffered_block_prec [OF s kp])
       (auto intro: inQ parQ timeQ point_in_block [OF k])
next
  fix k and s :: "'a state"
  assume k: "k < n" and s: "prec_state ev Q s"
  show "prec_state ev Q (buffered_point ev inputs out pars time k s)"
    by (rule buffered_point_prec [OF s kp W]) (auto intro: inQ parQ timeQ k)
qed (rule J)

lemma elem1_in_ptrs:
  assumes "shape a = [n]" and "arr_wf a" and "i < n"
  shows "elem1 a i \<in> set (arr_ptrs a)"
proof -
  from assms(1,2) obtain s where s: "strides a = [s]"
    by (cases "strides a") (auto simp: arr_wf_def)
  have "elem1 a i = ptr_add (arr_data a) (int i * s)" using s by (simp add: elem1_def)
  moreover have "int i * s \<in> set (offsets (shape a) (strides a))"
    using assms(1,3) s by (auto simp: offsets_1d)
  ultimately show ?thesis by (simp add: arr_ptrs_def)
qed

lemma elem2_in_ptrs:
  assumes "shape a = [n, m]" and "arr_wf a" and "i < n" and "j < m"
  shows "elem2 a i j \<in> set (arr_ptrs a)"
proof -
  from assms(1,2) obtain s0 ss where s0: "strides a = s0 # ss" "length ss = 1"
    by (cases "strides a") (auto simp: arr_wf_def)
  then obtain s1 where s: "strides a = [s0, s1]" by (cases ss) auto
  have "elem2 a i j = ptr_add (arr_data a) (int i * s0 + int j * s1)"
    using s by (simp add: elem2_def)
  moreover have "int i * s0 + int j * s1 \<in> set (offsets (shape a) (strides a))"
  proof -
    have "int i * s0 + int j * s1 \<in> (\<lambda>xa. int i * s0 + int xa * s1) ` {0..<m}"
      using assms(4) by (intro image_eqI [where x = j]) simp_all
    moreover have "i \<in> {0..<n}" using assms(3) by simp
    ultimately have "\<exists>x\<in>{0..<n}. int i * s0 + int j * s1
        \<in> (\<lambda>xa. int x * s0 + int xa * s1) ` {0..<m}" by blast
    then show ?thesis using assms(1) s by (simp add: offsets_2d)
  qed
  ultimately show ?thesis by (simp add: arr_ptrs_def)
qed

lemma length_c_strides: "length (c_strides shp) = length shp"
  by (induction shp) auto

lemma conv_of_wf: "conv_of env ev n a b \<Longrightarrow> arr_wf a \<Longrightarrow> arr_wf b"
  by (auto simp: conv_of_def arr_wf_def length_c_strides split: if_splits)

lemma ensure_keeps_checked:
  fixes s :: "'v::zero state"
  assumes "pyreal_check_array s a n"
  shows "pyreal_check_array (pyreal_ensure_array out n s) a n"
proof -
  have "slot_prec (load (pyreal_ensure_array out n s) q) = Some n"
    if q: "q \<in> set (arr_ptrs a)" for q
  proof -
    from q obtain off where f: "q = Ptr (Npy (base a)) off" using arr_ptrs_form by blast
    from q assms have "slot_prec (load s q) = Some n"
      by (simp add: pyreal_check_array_def list_all_iff)
    with f ensure_heap [of out n s "base a" off] show ?thesis by auto
  qed
  then show ?thesis by (simp add: pyreal_check_array_def list_all_iff)
qed

lemma checked_slots:
  "pyreal_check_array s a n \<Longrightarrow> q \<in> set (arr_ptrs a) \<Longrightarrow> slot_prec (load s q) = Some n"
  by (simp add: pyreal_check_array_def list_all_iff)

lemma init_scratch_ok:
  assumes "sizes_fit ev"
  shows "scratch_ok ev (st\<lparr>scratch := init_scratch ev\<rparr>)"
proof -
  have "list_all (\<lambda>x. slot_prec x = Some (prec ev)) (init_scratch ev b)" if "is_real ev" for b
    using that by (cases b) (simp_all add: init_scratch_def init_slot_def list_all_iff)
  then show ?thesis
    using assms by (simp add: scratch_ok_def scratch_sized_def init_scratch_def sizes_fit_def)
qed

lemma zero_copy_eval_scratch:
  "scratch (if ndim inputs = 2 then eval_multi ev True inputs out pars time s
            else eval_single ev True inputs out pars time s) = scratch s"
proof -
  have m: "only_stores {Npy (base out)} s
      (multi_zero_copy ev (arr_data out) (arr_data inputs) (data_opt pars) (data_opt time)
         (shape inputs ! 1) s)"
    by (rule multi_zero_copy_only_stores) (simp_all add: only_stores_refl)
  have "\<exists>k. k_out (Scal (arr_data out) (arr_data inputs) (data_opt pars) (data_opt time))
          = ptr_add (arr_data out) k"
    by (rule exI [of _ 0]) (simp add: arr_data_def)
  then have i: "only_stores {Npy (base out)} s
      (invoke ev (Scal (arr_data out) (arr_data inputs) (data_opt pars) (data_opt time)) s)"
    by (rule step_kernel_array [rotated]) (simp_all add: only_stores_refl)
  have "scratch t = scratch s" if "only_stores {Npy (base out)} s t" for t :: "'a state"
    using that by (auto simp: only_stores_def)
  with m i show ?thesis by (simp add: eval_multi_def eval_single_def Let_def)
qed

lemma call_keeps_scratch_ok:
  fixes st :: "'v::zero state"
  assumes wf: "cfunc_wf ev" and ok: "scratch_ok ev st"
    and kp: "is_real ev \<longrightarrow> kernels_at_prec ev"
    and wi: "arr_wf i" and wp: "\<forall>a. p = Some a \<longrightarrow> arr_wf a"
    and wt: "\<forall>a. t = Some (TimeIterable a) \<longrightarrow> arr_wf a"
    and c: "call env ev i oo p t st = (Inr out, st')"
  shows "scratch_ok ev st'"
proof -
  from c obtain inputs outputs_opt pars time st4 st5 st6 where
    ca: "convert_args env ev i oo p t st = Inr (inputs, outputs_opt, pars, time, st4)"
    and h: "check_head ev inputs pars time t = None"
    and po: "prepare_outputs ev inputs outputs_opt st4 = (Inr out, st5)"
    and ci: "is_real ev \<longrightarrow> pyreal_check_array st5 inputs (prec ev)"
    and st6: "st6 = (if is_real ev then pyreal_ensure_array out (prec ev) st5 else st5)"
    and cp: "check_pars ev inputs pars st6 = None"
    and ct: "check_time ev inputs time st6 = None"
    and st': "st' = (if ndim inputs = 2
            then eval_multi ev (zero_copy inputs out pars time) inputs out pars time st6
            else eval_single ev (zero_copy inputs out pars time) inputs out pars time st6)"
    by (rule call_Inr)
  note r = convert_args_Inr [OF ca]
  have W: "0 < simd_size ev" using wf by (simp add: cfunc_wf_def)
  have s6: "scratch st6 = scratch st"
    using r(1) prepare_outputs_state [OF po] st6
    by (simp add: grows_def scratch_pyreal_ensure_array)
  have sized6: "scratch_sized ev st6" using ok s6 by (simp add: scratch_ok_def scratch_sized_def)
  let ?R = "range Scratch \<union> {Npy (base out)}"
  have rs: "range Scratch \<subseteq> ?R" "Npy (base out) \<in> ?R" by auto
  have fr: "only_stores ?R st6 st'"
    unfolding st' using eval_multi_only_stores [OF rs] eval_single_only_stores [OF rs]
    by (cases "ndim inputs = 2") simp_all
  have sized: "scratch_sized ev st'"
    using sized6 fr by (simp add: scratch_sized_def only_stores_def)
  show ?thesis
  proof (cases "is_real ev")
    case False
    with sized show ?thesis by (simp add: scratch_ok_def)
  next
    case True
    with kp have kp': "kernels_at_prec ev" by simp
    have sp6: "\<forall>b. list_all (\<lambda>x. slot_prec x = Some (prec ev)) (scratch st6 b)"
      using ok True s6 by (simp add: scratch_ok_def)
    show ?thesis
    proof (cases "zero_copy inputs out pars time")
      case zc: True
      have "st' = (if ndim inputs = 2 then eval_multi ev True inputs out pars time st6
                   else eval_single ev True inputs out pars time st6)"
        using st' zc by simp
      then have "scratch st' = scratch st6" by (simp only: zero_copy_eval_scratch)
      with sp6 sized True show ?thesis by (simp add: scratch_ok_def)
    next
      case zc: False
      let ?Q = "set (arr_ptrs inputs)
                \<union> (case pars of Some a \<Rightarrow> set (arr_ptrs a) | None \<Rightarrow> {})
                \<union> (case time of Some a \<Rightarrow> set (arr_ptrs a) | None \<Rightarrow> {})"
      have nd: "ndim inputs = 1 \<or> ndim inputs = 2" and s0: "shape inputs ! 0 = nvars ev"
        using h by (auto simp: check_head_def split: if_splits)
      have winp: "arr_wf inputs" using r(2) wi by (rule conv_of_wf)
      have wpar: "arr_wf a" if "pars = Some a" for a
      proof -
        from that r(4) obtain a0 where "p = Some a0" "conv_of env ev (next_block st) a0 a"
          by (cases p) auto
        with wp show ?thesis by (auto intro: conv_of_wf)
      qed
      have wtime: "arr_wf a" if tm: "time = Some a" for a
      proof (cases t)
        case None
        with r(5) tm show ?thesis by simp
      next
        case (Some x)
        show ?thesis
        proof (cases x)
          case (TimeScalar v)
          with Some r(7) tm show ?thesis by (auto simp: arr_wf_def)
        next
          case (TimeIterable a0)
          with Some r(6) tm wt show ?thesis by (auto intro: conv_of_wf)
        qed
      qed
      have qi: "pyreal_check_array st6 inputs (prec ev)"
        using ci True st6 by (simp add: ensure_keeps_checked)
      have qp: "pyreal_check_array st6 a (prec ev)" if "pars = Some a" for a
        using cp that True by (auto simp: check_pars_def split: if_splits)
      have qt: "pyreal_check_array st6 a (prec ev)" if "time = Some a" for a
        using ct that True by (auto simp: check_time_def split: if_splits)
      have "\<forall>q \<in> ?Q. slot_prec (load st6 q) = Some (prec ev)"
        using qi qp qt by (auto split: option.splits dest: checked_slots)
      with sized6 sp6 have J: "prec_state ev ?Q st6" by (simp add: prec_state_def)
      have "prec_state ev ?Q st'"
      proof (cases "ndim inputs = 2")
        case False
        with nd have one: "ndim inputs = 1" by simp
        have si: "shape inputs = [nvars ev]" using one s0 by (rule shape_1d)
        have sp: "shape a = [nparams ev]" if "pars = Some a" for a
          using cp that one by (auto simp: check_pars_def split: if_splits intro: shape_1d)
        have stm: "shape a = [1]" if tm: "time = Some a" for a
        proof -
          from h one tm have "holds_scalar t" by (auto simp: check_head_def split: if_splits)
          then obtain v where "t = Some (TimeScalar v)" by (cases t rule: holds_scalar.cases) auto
          with r(7) tm show ?thesis by auto
        qed
        have "prec_state ev ?Q (single_buffered ev inputs out pars time st6)"
        proof (rule single_buffered_prec [OF J kp' W])
          fix k assume "k < nvars ev"
          then show "elem1 inputs k \<in> ?Q" using elem1_in_ptrs [OF si winp] by simp
        next
          fix a k assume "pars = Some a" "k < nparams ev"
          then show "elem1 a k \<in> ?Q" using elem1_in_ptrs [OF sp wpar] by simp
        next
          fix a assume "time = Some a"
          then show "elem1 a 0 \<in> ?Q" using elem1_in_ptrs [OF stm wtime, of a 0] by simp
        qed
        with False zc show ?thesis by (simp add: st' eval_single_def)
      next
        case two: True
        let ?N = "shape inputs ! 1"
        have si: "shape inputs = [nvars ev, ?N]" using two s0 by (auto intro: shape_2d)
        have sp: "shape a = [nparams ev, ?N]" if "pars = Some a" for a
          using cp that two by (auto simp: check_pars_def split: if_splits intro: shape_2d)
        have stm: "shape a = [?N]" if "time = Some a" for a
          using ct that two by (auto simp: check_time_def split: if_splits intro: shape_1d)
        have "prec_state ev ?Q (multi_buffered ev inputs out pars time ?N st6)"
        proof (rule multi_buffered_prec [OF J kp' W])
          fix k c assume "k < nvars ev" "c < ?N"
          then show "elem2 inputs k c \<in> ?Q" using elem2_in_ptrs [OF si winp] by simp
        next
          fix a k c assume "pars = Some a" "k < nparams ev" "c < ?N"
          then show "elem2 a k c \<in> ?Q" using elem2_in_ptrs [OF sp wpar] by simp
        next
          fix a c assume "time = Some a" "c < ?N"
          then show "elem1 a c \<in> ?Q" using elem1_in_ptrs [OF stm wtime] by simp
        qed
        with two zc show ?thesis by (simp add: st' eval_multi_def Let_def)
      qed
      with True show ?thesis by (simp add: prec_state_def scratch_ok_def)
    qed
  qed
qed

section \<open>The state of memory after a failed call\<close>

lemma ensure_slot_id: "slot_prec x = Some p \<Longrightarrow> ensure_slot p x = x"
  by (cases x) auto

lemma load_store_same: "load (store (Ptr (Npy b) off) v s) (Ptr (Npy b) off) = v"
  by (simp add: store.simps)

lemma ensure_fold_prec:
  fixes s :: "'v::zero state"
  assumes "\<forall>q\<in>set xs. \<exists>b off. q = Ptr (Npy b) off"
  shows "\<forall>q\<in>set xs. slot_prec (load (fold (\<lambda>q s. if slot_prec (load s q) = Some p then s
            else store q (ensure_slot p (load s q)) s) xs s) q) = Some p"
  using assms
proof (induction xs rule: rev_induct)
  case Nil
  show ?case by simp
next
  case (snoc x xs)
  let ?F = "\<lambda>q (s :: 'v state). if slot_prec (load s q) = Some p then s
              else store q (ensure_slot p (load s q)) s"
  let ?s = "fold ?F xs s"
  from snoc.prems obtain b off where x: "x = Ptr (Npy b) off" by auto
  have ih: "\<forall>q\<in>set xs. slot_prec (load ?s q) = Some p" using snoc by simp
  have e: "fold ?F (xs @ [x]) s = ?F x ?s" by simp
  have "slot_prec (load (?F x ?s) q) = Some p" if q: "q \<in> set (xs @ [x])" for q
  proof (cases "slot_prec (load ?s x) = Some p")
    case True
    with q ih show ?thesis by auto
  next
    case False
    show ?thesis
    proof (cases "q = x")
      case True
      have "load (store x (ensure_slot p (load ?s x)) ?s) x = ensure_slot p (load ?s x)"
        unfolding x by (rule load_store_same)
      then have "slot_prec (load (store x (ensure_slot p (load ?s x)) ?s) x) = Some p"
        by (simp only: slot_prec_ensure_slot)
      with False True show ?thesis by simp
    next
      case qx: False
      with q ih have "slot_prec (load ?s q) = Some p" by simp
      then have "slot_prec (load (store x (ensure_slot p (load ?s x)) ?s) q) = Some p"
        by (intro load_store_prec) simp_all
      with False show ?thesis by simp
    qed
  qed
  then show ?case unfolding e by blast
qed

lemma ensure_checked:
  fixes st :: "'v::zero state"
  shows "pyreal_check_array (pyreal_ensure_array a p st) a p"
proof -
  have "\<forall>q\<in>set (arr_ptrs a). \<exists>b off. q = Ptr (Npy b) off" using arr_ptrs_form by blast
  from ensure_fold_prec [OF this, of p st] show ?thesis
    by (simp add: pyreal_check_array_def pyreal_ensure_array_def list_all_iff)
qed

lemma ensure_heap_exact:
  fixes st :: "'v::zero state"
  shows "heap (pyreal_ensure_array a p st) b off =
     (if Ptr (Npy b) off \<in> set (arr_ptrs a) then ensure_slot p (heap st b off) else heap st b off)"
proof (cases "Ptr (Npy b) off \<in> set (arr_ptrs a)")
  case False
  with ensure_heap [of a p st b off] show ?thesis by auto
next
  case True
  with ensure_checked [of a p st]
  have at: "slot_prec (heap (pyreal_ensure_array a p st) b off) = Some p"
    by (auto simp: pyreal_check_array_def list_all_iff)
  from ensure_heap [of a p st b off]
  have "heap (pyreal_ensure_array a p st) b off = ensure_slot p (heap st b off)"
  proof
    assume u: "heap (pyreal_ensure_array a p st) b off = heap st b off"
    with at have "ensure_slot p (heap st b off) = heap st b off" by (simp add: ensure_slot_id)
    with u show ?thesis by simp
  qed simp
  with True show ?thesis by simp
qed

lemma arr_slots_iff: "(b, off) \<in> arr_slots a \<longleftrightarrow> Ptr (Npy b) off \<in> set (arr_ptrs a)"
proof
  assume "(b, off) \<in> arr_slots a"
  then obtain q where q: "q \<in> set (arr_ptrs a)" "(b, off) \<in> slot_of q"
    by (auto simp: arr_slots_def)
  from q(1) obtain o1 where "q = Ptr (Npy (base a)) o1" using arr_ptrs_form by blast
  with q show "Ptr (Npy b) off \<in> set (arr_ptrs a)" by simp
next
  assume "Ptr (Npy b) off \<in> set (arr_ptrs a)"
  moreover have "(b, off) \<in> slot_of (Ptr (Npy b) off)" by simp
  ultimately show "(b, off) \<in> arr_slots a" unfolding arr_slots_def by blast
qed

lemma call_Inl_stage:
  assumes "call env ev i oo p t st = (Inl e, st')"
  shows "(\<not> fails_late env ev i oo p t st \<and> grows st st')
         \<or> (fails_late env ev i oo p t st
            \<and> (\<exists>inputs outputs_opt pars time st4 out st5.
                 convert_args env ev i oo p t st = Inr (inputs, outputs_opt, pars, time, st4)
                 \<and> check_head ev inputs pars time t = None
                 \<and> prepare_outputs ev inputs outputs_opt st4 = (Inr out, st5)
                 \<and> st' = (if is_real ev then pyreal_ensure_array out (prec ev) st5 else st5)))"
proof (cases "convert_args env ev i oo p t st")
  case (Inl x)
  obtain e0 s0 where x: "x = (e0, s0)" by (cases x)
  with Inl assms have "st' = s0" by (simp add: call_def)
  moreover have "\<not> fails_late env ev i oo p t st" using Inl by (simp add: fails_late_def)
  ultimately show ?thesis using convert_args_Inl [OF Inl [unfolded x]] by simp
next
  case (Inr x)
  obtain inputs outputs_opt pars time st4 where x: "x = (inputs, outputs_opt, pars, time, st4)"
    by (cases x)
  note c = Inr [unfolded x]
  note g4 = convert_args_Inr(1) [OF c]
  show ?thesis
  proof (cases "check_head ev inputs pars time t")
    case (Some e1)
    with c assms have "st' = st4" by (simp add: call_def)
    moreover have "\<not> fails_late env ev i oo p t st" using c Some by (simp add: fails_late_def)
    ultimately show ?thesis using g4 by simp
  next
    case None
    obtain r st5 where po: "prepare_outputs ev inputs outputs_opt st4 = (r, st5)" by fastforce
    have g5: "grows st st5" using g4 prepare_outputs_state [OF po] grows_trans by blast
    show ?thesis
    proof (cases r)
      case (Inl e2)
      with c None po assms have "st' = st5" by (simp add: call_def)
      moreover have "\<not> fails_late env ev i oo p t st"
        using c None po Inl by (simp add: fails_late_def)
      ultimately show ?thesis using g5 by simp
    next
      case (Inr out)
      with c None po assms have ct: "call_tail ev inputs out pars time st5 = (Inl e, st')"
        by (simp add: call_def)
      let ?st1 = "if is_real ev then pyreal_ensure_array out (prec ev) st5 else st5"
      have fl: "fails_late env ev i oo p t st =
          (\<not> (is_real ev \<and> \<not> pyreal_check_array st5 inputs (prec ev))
           \<and> (check_pars ev inputs pars ?st1 \<noteq> None \<or> check_time ev inputs time ?st1 \<noteq> None))"
        using c None po Inr by (simp add: fails_late_def Let_def)
      show ?thesis
      proof (cases "is_real ev \<and> \<not> pyreal_check_array st5 inputs (prec ev)")
        case True
        with ct have "st' = st5" by (simp add: call_tail_def)
        with True fl g5 show ?thesis by simp
      next
        case False
        with ct have "st' = ?st1
            \<and> (check_pars ev inputs pars ?st1 \<noteq> None \<or> check_time ev inputs time ?st1 \<noteq> None)"
          by (auto simp: call_tail_def Let_def split: option.splits)
        with False fl c None po Inr show ?thesis by auto
      qed
    qed
  qed
qed

text \<open>
  C4, amended: when a call fails, no kernel has been invoked and the scratch vectors are
  untouched. Unless the element type is \<^verbatim>\<open>mppp::real\<close> and the call fails at the validation
  of the parameters or of the time (every earlier step having succeeded), all memory that
  existed before the call is unchanged. In that one situation every slot of a caller-supplied
  outputs array of the dtype of the evaluator holds its precision-normalized value (so the
  slots that were not at the working precision have been rewritten), and every other slot of
  memory that existed before the call is unchanged.
\<close>

theorem failed_call_state:
  assumes "call env ev i oo p t st = (Inl e, st')"
  shows "klog st' = klog st \<and> scratch st' = scratch st
         \<and> (\<not> (is_real ev \<and> fails_late env ev i oo p t st) \<longrightarrow>
               (\<forall>b off. b < next_block st \<longrightarrow> heap st' b off = heap st b off))
         \<and> (is_real ev \<and> fails_late env ev i oo p t st \<longrightarrow>
               (\<forall>b off. b < next_block st \<longrightarrow>
                  heap st' b off =
                    (if \<exists>a. oo = Some a \<and> dtype a = dt ev \<and> (b, off) \<in> arr_slots a
                     then ensure_slot (prec ev) (heap st b off) else heap st b off)))"
  using call_Inl_stage [OF assms]
proof
  assume "\<not> fails_late env ev i oo p t st \<and> grows st st'"
  then show ?thesis by (auto simp: grows_def)
next
  assume a: "fails_late env ev i oo p t st
            \<and> (\<exists>inputs outputs_opt pars time st4 out st5.
                 convert_args env ev i oo p t st = Inr (inputs, outputs_opt, pars, time, st4)
                 \<and> check_head ev inputs pars time t = None
                 \<and> prepare_outputs ev inputs outputs_opt st4 = (Inr out, st5)
                 \<and> st' = (if is_real ev then pyreal_ensure_array out (prec ev) st5 else st5))"
  then obtain inputs outputs_opt pars time st4 out st5 where
    fl: "fails_late env ev i oo p t st"
    and c: "convert_args env ev i oo p t st = Inr (inputs, outputs_opt, pars, time, st4)"
    and h: "check_head ev inputs pars time t = None"
    and po: "prepare_outputs ev inputs outputs_opt st4 = (Inr out, st5)"
    and st': "st' = (if is_real ev then pyreal_ensure_array out (prec ev) st5 else st5)"
    by blast
  note r = convert_args_Inr [OF c]
  have nd: "ndim inputs = 1 \<or> ndim inputs = 2"
    using h by (auto simp: check_head_def split: if_splits)
  note o = prepare_outputs_Inr [OF po nd]
  have g5: "grows st st5" using r(1) prepare_outputs_state [OF po] grows_trans by blast
  have k: "klog st' = klog st" using st' g5 by (simp add: klog_pyreal_ensure_array grows_def)
  have s: "scratch st' = scratch st"
    using st' g5 by (simp add: scratch_pyreal_ensure_array grows_def)
  show ?thesis
  proof (cases "is_real ev")
    case False
    with st' g5 have "\<forall>b off. b < next_block st \<longrightarrow> heap st' b off = heap st b off"
      by (simp add: grows_def)
    with k s False show ?thesis by simp
  next
    case True
    have "heap st' b off =
            (if \<exists>a. oo = Some a \<and> dtype a = dt ev \<and> (b, off) \<in> arr_slots a
             then ensure_slot (prec ev) (heap st b off) else heap st b off)"
      if lt: "b < next_block st" for b off
    proof -
      have h5: "heap st5 b off = heap st b off" using g5 lt by (simp add: grows_def)
      have e: "heap st' b off = (if Ptr (Npy b) off \<in> set (arr_ptrs out)
                 then ensure_slot (prec ev) (heap st b off) else heap st b off)"
        using st' True h5 by (simp add: ensure_heap_exact)
      have "(\<exists>a. oo = Some a \<and> dtype a = dt ev \<and> (b, off) \<in> arr_slots a)
          \<longleftrightarrow> Ptr (Npy b) off \<in> set (arr_ptrs out)"
      proof
        assume "\<exists>a. oo = Some a \<and> dtype a = dt ev \<and> (b, off) \<in> arr_slots a"
        then obtain a where a: "oo = Some a" "dtype a = dt ev" "(b, off) \<in> arr_slots a" by blast
        from r(3) a(1,2) have "outputs_opt = Some a"
          by (cases outputs_opt) (auto simp: conv_of_def)
        with o(4) have "out = a" by simp
        with a(3) show "Ptr (Npy b) off \<in> set (arr_ptrs out)" by (simp add: arr_slots_iff)
      next
        assume m: "Ptr (Npy b) off \<in> set (arr_ptrs out)"
        then have bo: "b = base out" using arr_ptrs_form by blast
        have "\<exists>a. oo = Some a \<and> dtype a = dt ev \<and> out = a"
        proof (cases outputs_opt)
          case None
          with o(5) have "base out = next_block st4" by simp
          moreover have "next_block st \<le> next_block st4" using r(1) by (simp add: grows_def)
          ultimately show ?thesis using bo lt by simp
        next
          case (Some b')
          with o(4) have ob: "out = b'" by simp
          from Some r(3) obtain a where a: "oo = Some a" "conv_of env ev (next_block st) a b'"
            by (cases oo) auto
          show ?thesis
          proof (cases "dtype a = dt ev")
            case True
            with a ob show ?thesis by (simp add: conv_of_def)
          next
            case False
            with a(2) have "next_block st \<le> base b'" by (simp add: conv_of_def)
            with ob bo lt show ?thesis by simp
          qed
        qed
        with m show "\<exists>a. oo = Some a \<and> dtype a = dt ev \<and> (b, off) \<in> arr_slots a"
          by (auto simp: arr_slots_iff)
      qed
      with e show ?thesis by simp
    qed
    with k s True fl show ?thesis by simp
  qed
qed

theorem failed_call_state_witness:
  "fst (call ex_env ex_real_cfunc (ex_real_arr 0 [1]) (Some (ex_real_arr 1 [1]))
          (Some (ex_real_arr 2 [2])) None ex_real_state) = Inl SizeMismatch
   \<and> fails_late ex_env ex_real_cfunc (ex_real_arr 0 [1]) (Some (ex_real_arr 1 [1]))
          (Some (ex_real_arr 2 [2])) None ex_real_state
   \<and> klog (snd (call ex_env ex_real_cfunc (ex_real_arr 0 [1]) (Some (ex_real_arr 1 [1]))
          (Some (ex_real_arr 2 [2])) None ex_real_state)) = klog ex_real_state
   \<and> heap (snd (call ex_env ex_real_cfunc (ex_real_arr 0 [1]) (Some (ex_real_arr 1 [1]))
          (Some (ex_real_arr 2 [2])) None ex_real_state)) 0 0 = heap ex_real_state 0 0
   \<and> heap (snd (call ex_env ex_real_cfunc (ex_real_arr 0 [1]) (Some (ex_real_arr 1 [1]))
          (Some (ex_real_arr 2 [2])) None ex_real_state)) 1 0 = Num 100 7
   \<and> fst (call ex_env ex_real_cfunc (ex_real_arr 0 [1]) (Some (ex_real_arr 1 [2]))
          (Some (ex_real_arr 2 [2])) None ex_real_state) = Inl SizeMismatch
   \<and> \<not> fails_late ex_env ex_real_cfunc (ex_real_arr 0 [1]) (Some (ex_real_arr 1 [2]))
          (Some (ex_real_arr 2 [2])) None ex_real_state
   \<and> heap (snd (call ex_env ex_real_cfunc (ex_real_arr 0 [1]) (Some (ex_real_arr 1 [2]))
          (Some (ex_real_arr 2 [2])) None ex_real_state)) 1 0 = Num 53 7"
proof -
  let ?c = "call ex_env ex_real_cfunc (ex_real_arr 0 [1]) (Some (ex_real_arr 1 [1]))
          (Some (ex_real_arr 2 [2])) None ex_real_state"
  let ?d = "call ex_env ex_real_cfunc (ex_real_arr 0 [1]) (Some (ex_real_arr 1 [2]))
          (Some (ex_real_arr 2 [2])) None ex_real_state"
  have re: "is_real ex_real_cfunc" by (simp add: ex_real_cfunc_def)
  have n: "(0::nat) < next_block ex_real_state" "(1::nat) < next_block ex_real_state"
    by (simp_all add: ex_real_state_def)
  have h1: "heap ex_real_state 1 0 = Num 53 7" by (simp add: ex_real_state_def ex_real_heap_def)
  \<comment> \<open>the parameters have the wrong size: the outputs array has been normalized\<close>
  have f: "fst ?c = Inl SizeMismatch"
    by (simp add: call_defs ex_real_defs Let_def store.simps)
  have c: "?c = (Inl SizeMismatch, snd ?c)" using f by (metis prod.collapse)
  have fl: "fails_late ex_env ex_real_cfunc (ex_real_arr 0 [1]) (Some (ex_real_arr 1 [1]))
          (Some (ex_real_arr 2 [2])) None ex_real_state"
    by (simp add: fails_late_def call_defs ex_real_defs Let_def store.simps)
  have m0: "(0, 0) \<notin> arr_slots (ex_real_arr 1 [1])"
    by (simp add: arr_slots_def arr_ptrs_def arr_data_def ex_real_arr_def)
  have m1: "(1, 0) \<in> arr_slots (ex_real_arr 1 [1])"
    by (simp add: arr_slots_def arr_ptrs_def arr_data_def ex_real_arr_def)
  have d1: "dtype (ex_real_arr 1 [1]) = dt ex_real_cfunc"
    by (simp add: ex_real_arr_def ex_real_cfunc_def)
  from failed_call_state [OF c] re fl have k: "klog (snd ?c) = klog ex_real_state"
    and hh: "\<forall>b off. b < next_block ex_real_state \<longrightarrow>
        heap (snd ?c) b off =
          (if \<exists>a. Some (ex_real_arr 1 [1]) = Some a \<and> dtype a = dt ex_real_cfunc
                 \<and> (b, off) \<in> arr_slots a
           then ensure_slot (prec ex_real_cfunc) (heap ex_real_state b off)
           else heap ex_real_state b off)"
    by blast+
  from hh n(1) m0 have v0: "heap (snd ?c) 0 0 = heap ex_real_state 0 0" by simp
  from hh n(2) m1 d1 have "heap (snd ?c) 1 0
      = ensure_slot (prec ex_real_cfunc) (heap ex_real_state 1 0)" by simp
  with h1 have v1: "heap (snd ?c) 1 0 = Num 100 7" by (simp add: ex_real_cfunc_def)
  \<comment> \<open>the outputs array has the wrong size: nothing has been written\<close>
  have g: "fst ?d = Inl SizeMismatch"
    by (simp add: call_defs ex_real_defs Let_def store.simps)
  have d: "?d = (Inl SizeMismatch, snd ?d)" using g by (metis prod.collapse)
  have nl: "\<not> fails_late ex_env ex_real_cfunc (ex_real_arr 0 [1]) (Some (ex_real_arr 1 [2]))
          (Some (ex_real_arr 2 [2])) None ex_real_state"
    by (simp add: fails_late_def call_defs ex_real_defs Let_def store.simps)
  from failed_call_state [OF d] nl n(2)
  have "heap (snd ?d) 1 0 = heap ex_real_state 1 0" by blast
  with h1 have w1: "heap (snd ?d) 1 0 = Num 53 7" by simp
  from f fl k v0 v1 g nl w1 show ?thesis by simp
qed

section \<open>Kernel invocations of the buffered paths\<close>

lemma klog_copy_slot: "klog (copy_slot dst src st) = klog st"
  by (simp add: copy_slot_def klog_store)

lemma klog_fold_copy: "klog (fold (\<lambda>i. copy_slot (d i) (s i)) xs st) = klog st"
  by (rule fold_keeps [where P = klog]) (rule klog_copy_slot)

lemma klog_fold2_copy:
  "klog (fold (\<lambda>i. fold (\<lambda>j. copy_slot (d i j) (s i j)) ys) xs st) = klog st"
  by (rule fold_keeps [where P = klog]) (rule klog_fold_copy)

lemma klog_single_buffered:
  "klog (single_buffered ev inputs out pars time st)
     = klog st @ [Scal (buf_ptr Buf_out) (buf_ptr Buf_in) (buf_ptr Buf_pars) (buf_ptr Buf_time)]"
  unfolding single_buffered_def Let_def
  by (simp add: klog_fold_copy klog_copy_slot klog_invoke split: option.splits)

lemma klog_buffered_point:
  "klog (buffered_point ev inputs out pars time k st)
     = klog st @ [Scal (buf_ptr Buf_out) (buf_ptr Buf_in) (buf_ptr Buf_pars) (buf_ptr Buf_time)]"
  unfolding buffered_point_def Let_def
  by (simp add: klog_fold_copy klog_copy_slot klog_invoke split: option.splits)

lemma klog_buffered_block:
  "klog (buffered_block ev inputs out pars time k st)
     = klog st @ [Batch (buf_ptr Buf_out) (buf_ptr Buf_in) (buf_ptr Buf_pars) (buf_ptr Buf_time)]"
  unfolding buffered_block_def Let_def
  by (simp add: klog_fold_copy klog_fold2_copy klog_invoke split: option.splits)

lemma klog_fold_replicate:
  assumes "\<And>x s. klog (f x s) = klog s @ [c]"
  shows "klog (fold f xs st) = klog st @ replicate (length xs) c"
  using assms by (induction xs arbitrary: st) simp_all

lemma klog_multi_buffered:
  "klog (multi_buffered ev inputs out pars time n st)
     = klog st
       @ replicate (n div simd_size ev)
           (Batch (buf_ptr Buf_out) (buf_ptr Buf_in) (buf_ptr Buf_pars) (buf_ptr Buf_time))
       @ replicate (n - n div simd_size ev * simd_size ev)
           (Scal (buf_ptr Buf_out) (buf_ptr Buf_in) (buf_ptr Buf_pars) (buf_ptr Buf_time))"
  unfolding multi_buffered_def Let_def
  by (simp add: klog_fold_replicate [OF klog_buffered_point]
        klog_fold_replicate [OF klog_buffered_block])

section \<open>The two paths of a single evaluation, for any memory layout\<close>

lemma contents_1d:
  assumes "shape a = [n]" and "arr_wf a"
  shows "contents s a = map (\<lambda>i. load s (elem1 a i)) [0..<n]"
proof -
  from assms obtain s0 where "strides a = [s0]"
    by (cases "strides a") (auto simp: arr_wf_def)
  with assms(1) show ?thesis
    by (simp add: contents_def arr_ptrs_def offsets_1d elem1_def o_def)
qed

lemma elem1_inj:
  assumes "shape a = [n]" and "arr_wf a" and "distinct (arr_ptrs a)"
  shows "inj_on (\<lambda>j. offset a + int j * strides a ! 0) {..<n}"
proof -
  from assms obtain s0 where s: "strides a = [s0]"
    by (cases "strides a") (auto simp: arr_wf_def)
  have "arr_ptrs a = map (\<lambda>j. Ptr (Npy (base a)) (offset a + int j * s0)) [0..<n]"
    using assms(1) s by (simp add: arr_ptrs_def offsets_1d arr_data_def o_def)
  with assms(3) have "inj_on (\<lambda>j. Ptr (Npy (base a)) (offset a + int j * s0)) (set [0..<n])"
    by (simp add: distinct_map)
  then have "inj_on (\<lambda>j. offset a + int j * s0) {..<n}"
    by (auto simp: inj_on_def)
  with s show ?thesis by simp
qed

lemma fold_store_heap_inj:
  fixes st :: "'v state" and w :: "nat \<Rightarrow> (sbuf \<Rightarrow> 'v slot list) \<Rightarrow> 'v slot"
  assumes "inj_on g {..<n}"
  shows "scratch (fold (\<lambda>j s. store (Ptr (Npy b) (g j)) (w j (scratch s)) s) [0..<n] st)
           = scratch st
    \<and> klog (fold (\<lambda>j s. store (Ptr (Npy b) (g j)) (w j (scratch s)) s) [0..<n] st) = klog st
    \<and> (\<forall>j<n. heap (fold (\<lambda>j s. store (Ptr (Npy b) (g j)) (w j (scratch s)) s) [0..<n] st)
                 b (g j) = w j (scratch st))"
  using assms
proof (induction n)
  case 0
  show ?case by simp
next
  case (Suc n)
  let ?G = "fold (\<lambda>j s. store (Ptr (Npy b) (g j)) (w j (scratch s)) s) [0..<n] st"
  from Suc.prems have inj: "inj_on g {..<n}" by (auto simp: inj_on_def)
  from Suc.IH [OF inj] have ih: "scratch ?G = scratch st" "klog ?G = klog st"
    "\<forall>j<n. heap ?G b (g j) = w j (scratch st)" by simp_all
  have ne: "g j \<noteq> g n" if "j < n" for j
    using Suc.prems that by (auto simp: inj_on_def)
  have step: "fold (\<lambda>j s. store (Ptr (Npy b) (g j)) (w j (scratch s)) s) [0..<Suc n] st
      = ?G\<lparr>heap := (heap ?G)(b := (heap ?G b)(g n := w n (scratch st))),
            written := insert (b, g n) (written ?G)\<rparr>"
    using ih(1) by (simp add: store.simps)
  show ?case unfolding step using ih ne by (auto simp: less_Suc_eq)
qed

lemma copy_from_scratch_elem1:
  "copy_slot (elem1 a i) (ptr_add (buf_ptr B) (int i))
     = (\<lambda>s. store (Ptr (Npy (base a)) ((\<lambda>j. offset a + int j * strides a ! 0) i))
               ((\<lambda>i sc. if i < length (sc B) then sc B ! i else Unconstructed) i (scratch s)) s)"
  by (rule ext) (simp add: copy_slot_def buf_ptr_def elem1_def arr_data_def)

text \<open>The buffered path, for arrays of any strides that may overlap one another: the
  values are gathered from the state before the evaluation, and the scalar kernel is invoked
  once, on the scratch vectors.\<close>

lemma single_buffered_values:
  fixes st :: "'v state"
  assumes wf: "0 < simd_size ev" and sz: "scratch_sized ev st"
    and sh: "single_shapes ev inputs out pars time"
    and inj: "inj_on (\<lambda>j. offset out + int j * strides out ! 0) {..<nouts ev}"
  shows "\<forall>j<nouts ev. load (single_buffered ev inputs out pars time st) (elem1 out j)
    = fptr_scal ev
        (map (\<lambda>i. load st (elem1 inputs i)) [0..<nvars ev])
        (map (\<lambda>i. case pars of Some p \<Rightarrow> load st (elem1 p i) | None \<Rightarrow> Unconstructed)
           [0..<nparams ev])
        (if is_time_dependent ev
         then [case time of Some t \<Rightarrow> load st (elem1 t 0) | None \<Rightarrow> Unconstructed] else []) j"
    and "klog (single_buffered ev inputs out pars time st)
    = klog st @ [Scal (buf_ptr Buf_out) (buf_ptr Buf_in) (buf_ptr Buf_pars) (buf_ptr Buf_time)]"
proof -
  let ?W = "simd_size ev"
  let ?pv = "\<lambda>i. case pars of Some p \<Rightarrow> load st (elem1 p i) | None \<Rightarrow> Unconstructed"
  let ?tv = "case time of Some t \<Rightarrow> load st (elem1 t 0) | None \<Rightarrow> Unconstructed"
  have len: "nvars ev \<le> length (scratch st Buf_in)" "nouts ev \<le> length (scratch st Buf_out)"
    "nparams ev \<le> length (scratch st Buf_pars)" "0 < length (scratch st Buf_time)"
    using sz wf by (simp_all add: scratch_sized_def)
  \<comment> \<open>gather the inputs\<close>
  let ?vin = "\<lambda>i (h :: nat \<Rightarrow> int \<Rightarrow> 'v slot). h (base inputs) (offset inputs + int i * strides inputs ! 0)"
  let ?st1 = "fold (\<lambda>i. copy_slot (ptr_add (buf_ptr Buf_in) (int i)) (elem1 inputs i))
                [0..<nvars ev] st"
  have st1: "?st1 = fold (\<lambda>i s. store (Ptr (Scratch Buf_in) (int i)) (?vin i (heap s)) s)
                      [0..<nvars ev] st"
    unfolding copy_to_scratch ..
  note f1 = fold_store_scratch [OF len(1), of ?vin, folded st1]
  \<comment> \<open>gather the parameters\<close>
  let ?st2 = "case pars of
                Some u_pars \<Rightarrow>
                  fold (\<lambda>i. copy_slot (ptr_add (buf_ptr Buf_pars) (int i)) (elem1 u_pars i))
                    [0..<nparams ev] ?st1
              | None \<Rightarrow> ?st1"
  have f2: "heap ?st2 = heap st \<and> klog ?st2 = klog st
      \<and> scratch ?st2 Buf_in = scratch ?st1 Buf_in
      \<and> scratch ?st2 Buf_out = scratch st Buf_out
      \<and> scratch ?st2 Buf_time = scratch st Buf_time
      \<and> length (scratch ?st2 Buf_pars) = length (scratch st Buf_pars)
      \<and> (\<forall>i<nparams ev. scratch ?st2 Buf_pars ! i = ?pv i)"
  proof (cases pars)
    case None
    with sh have "nparams ev = 0" by (simp add: single_shapes_def)
    with None f1 show ?thesis by simp
  next
    case (Some p)
    let ?vp = "\<lambda>i (h :: nat \<Rightarrow> int \<Rightarrow> 'v slot). h (base p) (offset p + int i * strides p ! 0)"
    let ?s = "fold (\<lambda>i. copy_slot (ptr_add (buf_ptr Buf_pars) (int i)) (elem1 p i))
                [0..<nparams ev] ?st1"
    have s: "?s = fold (\<lambda>i s. store (Ptr (Scratch Buf_pars) (int i)) (?vp i (heap s)) s)
                      [0..<nparams ev] ?st1"
      unfolding copy_to_scratch ..
    have l: "nparams ev \<le> length (scratch ?st1 Buf_pars)" using f1 len(3) by simp
    note g = fold_store_scratch [OF l, of ?vp, folded s]
    have "\<forall>i<nparams ev. scratch ?s Buf_pars ! i = load st (elem1 p i)"
      using g f1 by (simp add: load_elem1)
    with Some g f1 show ?thesis by simp
  qed
  \<comment> \<open>the time\<close>
  let ?st3 = "case time of
                Some u_time \<Rightarrow> copy_slot (ptr_add (buf_ptr Buf_time) 0) (elem1 u_time 0) ?st2
              | None \<Rightarrow> ?st2"
  have f3: "heap ?st3 = heap st \<and> klog ?st3 = klog st
      \<and> scratch ?st3 Buf_in = scratch ?st1 Buf_in
      \<and> scratch ?st3 Buf_out = scratch st Buf_out
      \<and> scratch ?st3 Buf_pars = scratch ?st2 Buf_pars
      \<and> length (scratch ?st3 Buf_time) = length (scratch st Buf_time)
      \<and> (is_time_dependent ev \<longrightarrow> scratch ?st3 Buf_time ! 0 = ?tv)"
  proof (cases time)
    case None
    with sh have "\<not> is_time_dependent ev" by (simp add: single_shapes_def)
    with None f2 show ?thesis by simp
  next
    case (Some t)
    have l: "0 < length (scratch ?st2 Buf_time)" using f2 len(4) by simp
    have e: "copy_slot (ptr_add (buf_ptr Buf_time) 0) (elem1 t 0) ?st2
        = store (Ptr (Scratch Buf_time) 0) (heap st (base t) (offset t)) ?st2"
      using f2 by (simp add: copy_slot_def buf_ptr_def load_elem1)
    note g = store_scratch_time [OF l, of "heap st (base t) (offset t)", folded e]
    show ?thesis using Some g f2 by (simp add: load_elem1)
  qed
  \<comment> \<open>the kernel, on the scratch vectors\<close>
  let ?c = "Scal (buf_ptr Buf_out) (buf_ptr Buf_in) (buf_ptr Buf_pars) (buf_ptr Buf_time)"
  let ?st4 = "invoke ev ?c ?st3"
  let ?k = "?st3\<lparr>klog := klog ?st3 @ [?c]\<rparr>"
  let ?INS = "map (\<lambda>i. load st (elem1 inputs i)) [0..<nvars ev]"
  let ?PS = "map ?pv [0..<nparams ev]"
  let ?TS = "if is_time_dependent ev then [?tv] else []"
  have ins: "map (\<lambda>i. load ?st3 (ptr_add (buf_ptr Buf_in) (int i))) [0..<nvars ev] = ?INS"
  proof (rule map_cong [OF refl])
    fix i assume "i \<in> set [0..<nvars ev]"
    then have i: "i < nvars ev" by simp
    then have "i < length (scratch ?st3 Buf_in)" using f3 f1 len(1) by simp
    then have "load ?st3 (ptr_add (buf_ptr Buf_in) (int i)) = scratch ?st3 Buf_in ! i"
      by (rule load_scratch)
    also have "\<dots> = heap st (base inputs) (offset inputs + int i * strides inputs ! 0)"
      using f3 f1 i by simp
    finally show "load ?st3 (ptr_add (buf_ptr Buf_in) (int i)) = load st (elem1 inputs i)"
      by (simp add: load_elem1)
  qed
  have ps: "map (\<lambda>i. load ?st3 (ptr_add (buf_ptr Buf_pars) (int i))) [0..<nparams ev] = ?PS"
  proof (rule map_cong [OF refl])
    fix i assume "i \<in> set [0..<nparams ev]"
    then have i: "i < nparams ev" by simp
    then have "i < length (scratch ?st3 Buf_pars)" using f3 f2 len(3) by simp
    then have "load ?st3 (ptr_add (buf_ptr Buf_pars) (int i)) = scratch ?st3 Buf_pars ! i"
      by (rule load_scratch)
    also have "\<dots> = ?pv i" using f3 f2 i by simp
    finally show "load ?st3 (ptr_add (buf_ptr Buf_pars) (int i)) = ?pv i" .
  qed
  have ts: "(if is_time_dependent ev then [load ?st3 (ptr_add (buf_ptr Buf_time) 0)] else []) = ?TS"
  proof (cases "is_time_dependent ev")
    case True
    have "0 < length (scratch ?st3 Buf_time)" using f3 len(4) by simp
    then have "load ?st3 (ptr_add (buf_ptr Buf_time) (int 0)) = scratch ?st3 Buf_time ! 0"
      by (rule load_scratch)
    with True f3 show ?thesis by simp
  next
    case False
    then show ?thesis by simp
  qed
  let ?F = "fptr_scal ev ?INS ?PS ?TS"
  have st4: "?st4 = fold (\<lambda>j s. store (Ptr (Scratch Buf_out) (int j))
                             ((\<lambda>j (h :: nat \<Rightarrow> int \<Rightarrow> 'v slot). ?F j) j (heap s)) s)
                      [0..<nouts ev] ?k"
    unfolding invoke_Scal_scratch ins ps ts by (rule refl)
  have l4: "nouts ev \<le> length (scratch ?k Buf_out)" using f3 len(2) by simp
  note f4 = fold_store_scratch [OF l4, of "\<lambda>j h. ?F j", folded st4]
  \<comment> \<open>scatter the outputs\<close>
  let ?w = "\<lambda>i (sc :: sbuf \<Rightarrow> 'v slot list).
              if i < length (sc Buf_out) then sc Buf_out ! i else Unconstructed"
  let ?g = "\<lambda>j. offset out + int j * strides out ! 0"
  let ?st5 = "fold (\<lambda>i. copy_slot (elem1 out i) (ptr_add (buf_ptr Buf_out) (int i)))
                [0..<nouts ev] ?st4"
  have st5: "?st5 = fold (\<lambda>j s. store (Ptr (Npy (base out)) (?g j)) (?w j (scratch s)) s)
                      [0..<nouts ev] ?st4"
    unfolding copy_from_scratch_elem1 ..
  note f5 = fold_store_heap_inj [OF inj, of "base out" ?w ?st4, folded st5]
  have "\<forall>j<nouts ev. heap ?st5 (base out) (?g j) = ?F j"
    using f5 f4 len(2) f3 by simp
  then have "\<forall>j<nouts ev. load ?st5 (elem1 out j) = ?F j" by (simp add: load_elem1)
  then show "\<forall>j<nouts ev. load (single_buffered ev inputs out pars time st) (elem1 out j) = ?F j"
    unfolding single_buffered_def Let_def .
  have "klog ?st5 = klog st @ [?c]" using f5 f4 f3 by simp
  then show "klog (single_buffered ev inputs out pars time st) = klog st @ [?c]"
    unfolding single_buffered_def Let_def .
qed

text \<open>The values read by the two paths are the contents of the buffers.\<close>

lemma single_spec_values:
  assumes sh: "single_shapes ev inputs out pars time"
    and wi: "arr_wf inputs" and wp: "\<forall>a. pars = Some a \<longrightarrow> arr_wf a"
    and wt: "\<forall>a. time = Some a \<longrightarrow> arr_wf a"
  shows "single_eval_spec ev (contents st inputs) (opt_contents st pars) (opt_contents st time)
    = map (fptr_scal ev
        (map (\<lambda>i. load st (elem1 inputs i)) [0..<nvars ev])
        (map (\<lambda>i. case pars of Some p \<Rightarrow> load st (elem1 p i) | None \<Rightarrow> Unconstructed)
           [0..<nparams ev])
        (if is_time_dependent ev
         then [case time of Some t \<Rightarrow> load st (elem1 t 0) | None \<Rightarrow> Unconstructed] else []))
       [0..<nouts ev]"
proof -
  have si: "shape inputs = [nvars ev]" using sh by (simp add: single_shapes_def)
  have a: "contents st inputs = map (\<lambda>i. load st (elem1 inputs i)) [0..<nvars ev]"
    using si wi by (rule contents_1d)
  have b: "opt_contents st pars
      = map (\<lambda>i. case pars of Some p \<Rightarrow> load st (elem1 p i) | None \<Rightarrow> Unconstructed)
          [0..<nparams ev]"
  proof (cases pars)
    case None
    with sh have "nparams ev = 0" by (simp add: single_shapes_def)
    with None show ?thesis by (simp add: opt_contents_def)
  next
    case (Some p)
    with sh wp have "shape p = [nparams ev]" "arr_wf p" by (simp_all add: single_shapes_def)
    then have "contents st p = map (\<lambda>i. load st (elem1 p i)) [0..<nparams ev]"
      by (rule contents_1d)
    with Some show ?thesis by (simp add: opt_contents_def)
  qed
  have c: "opt_contents st time
      = [case time of Some t \<Rightarrow> load st (elem1 t 0) | None \<Rightarrow> Unconstructed]"
    if "is_time_dependent ev"
  proof (cases time)
    case None
    with sh that show ?thesis by (simp add: single_shapes_def)
  next
    case (Some t)
    with sh wt have "shape t = [1]" "arr_wf t" by (simp_all add: single_shapes_def)
    then have "contents st t = map (\<lambda>i. load st (elem1 t i)) [0..<1]"
      by (rule contents_1d)
    with Some show ?thesis by (simp add: opt_contents_def)
  qed
  show ?thesis unfolding single_eval_spec_def a b using c by simp
qed

lemma carray_wf: "is_npy_array_carray a \<Longrightarrow> arr_wf a"
  by (simp add: is_npy_array_carray_def arr_wf_def length_c_strides)

lemma carray_elem1:
  assumes "shape a = [n]" and "is_npy_array_carray a"
  shows "elem1 a i = ptr_add (arr_data a) (int i)"
  using assms by (simp add: elem1_def is_npy_array_carray_def)

lemma carray_distinct:
  assumes "shape a = [n]" and "is_npy_array_carray a"
  shows "distinct (arr_ptrs a)"
proof -
  have "arr_ptrs a = map (\<lambda>j. Ptr (Npy (base a)) (offset a + int j)) [0..<n]"
    using assms by (simp add: arr_ptrs_def is_npy_array_carray_def offsets_1d arr_data_def o_def)
  moreover have "inj_on (\<lambda>j. Ptr (Npy (base a)) (offset a + int j)) (set [0..<n])"
    by (auto simp: inj_on_def)
  ultimately show ?thesis by (simp add: distinct_map)
qed

lemma single_zero_copy_values:
  assumes sh: "single_shapes ev inputs out pars time"
    and ci: "is_npy_array_carray inputs" and co: "is_npy_array_carray out"
    and cp: "\<forall>a. pars = Some a \<longrightarrow> is_npy_array_carray a"
    and ct: "\<forall>a. time = Some a \<longrightarrow> is_npy_array_carray a"
  shows "contents (invoke ev (Scal (arr_data out) (arr_data inputs) (data_opt pars)
                                (data_opt time)) st) out
    = single_eval_spec ev (contents st inputs) (opt_contents st pars) (opt_contents st time)"
proof -
  have so: "shape out = [nouts ev]" and si: "shape inputs = [nvars ev]"
    using sh by (simp_all add: single_shapes_def)
  have a: "map (\<lambda>i. load st (ptr_add (arr_data inputs) (int i))) [0..<nvars ev]
      = map (\<lambda>i. load st (elem1 inputs i)) [0..<nvars ev]"
    by (simp add: carray_elem1 [OF si ci])
  have b: "map (\<lambda>i. load st (ptr_add (data_opt pars) (int i))) [0..<nparams ev]
      = map (\<lambda>i. case pars of Some p \<Rightarrow> load st (elem1 p i) | None \<Rightarrow> Unconstructed)
          [0..<nparams ev]"
  proof (cases pars)
    case None
    with sh have "nparams ev = 0" by (simp add: single_shapes_def)
    then show ?thesis by simp
  next
    case (Some p)
    with sh cp have "shape p = [nparams ev]" "is_npy_array_carray p"
      by (simp_all add: single_shapes_def)
    note e = carray_elem1 [OF this]
    show ?thesis using Some by (simp add: data_opt_def e)
  qed
  have c: "(if is_time_dependent ev then [load st (ptr_add (data_opt time) 0)] else [])
      = (if is_time_dependent ev
         then [case time of Some t \<Rightarrow> load st (elem1 t 0) | None \<Rightarrow> Unconstructed] else [])"
  proof (cases time)
    case None
    with sh have "\<not> is_time_dependent ev" by (simp add: single_shapes_def)
    then show ?thesis by simp
  next
    case (Some t)
    with sh ct have "shape t = [1]" "is_npy_array_carray t" by (simp_all add: single_shapes_def)
    note e = carray_elem1 [OF this, of 0]
    show ?thesis using Some e by (simp add: data_opt_def)
  qed
  have w: "arr_wf inputs" "\<forall>a. pars = Some a \<longrightarrow> arr_wf a" "\<forall>a. time = Some a \<longrightarrow> arr_wf a"
    using ci cp ct by (auto intro: carray_wf)
  show ?thesis
    unfolding zero_copy_single_contents [OF so co] single_spec_values [OF sh w] a b c
    by (rule refl)
qed

lemma supplied_all:
  "list_all P (supplied inputs out pars time)
     = (P inputs \<and> P out \<and> (\<forall>a. pars = Some a \<longrightarrow> P a) \<and> (\<forall>a. time = Some a \<longrightarrow> P a))"
  by (cases pars; cases time) (auto simp: supplied_def)

section \<open>The path that a call executes\<close>

lemma klog_kernel_state:
  assumes "grows st st4"
  shows "klog (kernel_state ev inputs outputs_opt out st4) = klog st"
    and "scratch (kernel_state ev inputs outputs_opt out st4) = scratch st"
proof -
  obtain r st5 where po: "prepare_outputs ev inputs outputs_opt st4 = (r, st5)" by fastforce
  from prepare_outputs_state [OF po] assms have "klog st5 = klog st" "scratch st5 = scratch st"
    by (simp_all add: grows_def)
  with po show "klog (kernel_state ev inputs outputs_opt out st4) = klog st"
    and "scratch (kernel_state ev inputs outputs_opt out st4) = scratch st"
    by (simp_all add: kernel_state_def klog_pyreal_ensure_array scratch_pyreal_ensure_array)
qed

lemma call_Inr_state:
  assumes c: "call env ev i oo p t st = (Inr out, st')"
    and ca: "convert_args env ev i oo p t st = Inr (inputs, outputs_opt, pars, time, st4)"
  shows "st' = (if ndim inputs = 2
            then eval_multi ev (zero_copy inputs out pars time) inputs out pars time
                   (kernel_state ev inputs outputs_opt out st4)
            else eval_single ev (zero_copy inputs out pars time) inputs out pars time
                   (kernel_state ev inputs outputs_opt out st4))"
proof -
  from c obtain inputs' outputs_opt' pars' time' st4' st5 st6 where
    ca': "convert_args env ev i oo p t st = Inr (inputs', outputs_opt', pars', time', st4')"
    and po: "prepare_outputs ev inputs' outputs_opt' st4' = (Inr out, st5)"
    and st6: "st6 = (if is_real ev then pyreal_ensure_array out (prec ev) st5 else st5)"
    and st': "st' = (if ndim inputs' = 2
            then eval_multi ev (zero_copy inputs' out pars' time') inputs' out pars' time' st6
            else eval_single ev (zero_copy inputs' out pars' time') inputs' out pars' time' st6)"
    by (rule call_Inr)
  from ca ca' have e: "inputs' = inputs" "outputs_opt' = outputs_opt" "pars' = pars"
    "time' = time" "st4' = st4" by simp_all
  have "st6 = kernel_state ev inputs outputs_opt out st4"
    using po st6 e by (simp add: kernel_state_def)
  with st' e show ?thesis by simp
qed

text \<open>
  C3: a successful call, whose converted arrays are \<open>inputs\<close>, \<open>pars\<close> and \<open>time\<close> and whose
  outputs array is \<open>out\<close>. The zero-copy flag is true exactly when every supplied buffer
  (inputs, outputs, parameters if present, time if present) is C-style contiguous and no pair
  of them may share memory. When it is true the call executes the zero-copy path: the kernels
  are invoked on the data pointers of the arrays. When it is false the call executes the
  buffered path instead: the kernels are invoked on the scratch vectors only.
\<close>

theorem zero_copy_gate:
  assumes "call env ev i oo p t st = (Inr out, st')"
    and "convert_args env ev i oo p t st = Inr (inputs, outputs_opt, pars, time, st4)"
  shows "zero_copy inputs out pars time =
           (list_all is_npy_array_carray (supplied inputs out pars time)
            \<and> \<not> (\<exists>i j. i < j \<and> j < length (supplied inputs out pars time)
                     \<and> may_share2 (supplied inputs out pars time ! i)
                          (supplied inputs out pars time ! j)))
         \<and> st' =
             (if zero_copy inputs out pars time
              then (if ndim inputs = 2
                    then multi_zero_copy ev (arr_data out) (arr_data inputs) (data_opt pars)
                           (data_opt time) (shape inputs ! 1)
                           (kernel_state ev inputs outputs_opt out st4)
                    else invoke ev (Scal (arr_data out) (arr_data inputs) (data_opt pars)
                                      (data_opt time))
                           (kernel_state ev inputs outputs_opt out st4))
              else (if ndim inputs = 2
                    then multi_buffered ev inputs out pars time (shape inputs ! 1)
                           (kernel_state ev inputs outputs_opt out st4)
                    else single_buffered ev inputs out pars time
                           (kernel_state ev inputs outputs_opt out st4)))
         \<and> klog st' = klog st @
             (if zero_copy inputs out pars time
              then (if ndim inputs = 2
                    then map (\<lambda>k. Batch_s (ptr_add (arr_data out) (int (k * simd_size ev)))
                            (if 0 < nvars ev then ptr_add (arr_data inputs) (int (k * simd_size ev))
                             else Null)
                            (if 0 < nparams ev then ptr_add (data_opt pars) (int (k * simd_size ev))
                             else Null)
                            (if is_time_dependent ev
                             then ptr_add (data_opt time) (int (k * simd_size ev)) else Null)
                            (shape inputs ! 1))
                           [0..<(shape inputs ! 1) div simd_size ev]
                         @ map (\<lambda>k. Scal_s (ptr_add (arr_data out) (int k))
                            (if 0 < nvars ev then ptr_add (arr_data inputs) (int k) else Null)
                            (if 0 < nparams ev then ptr_add (data_opt pars) (int k) else Null)
                            (if is_time_dependent ev then ptr_add (data_opt time) (int k) else Null)
                            (shape inputs ! 1))
                           [(shape inputs ! 1) div simd_size ev * simd_size ev..<shape inputs ! 1]
                    else [Scal (arr_data out) (arr_data inputs) (data_opt pars) (data_opt time)])
              else (if ndim inputs = 2
                    then replicate ((shape inputs ! 1) div simd_size ev)
                           (Batch (buf_ptr Buf_out) (buf_ptr Buf_in) (buf_ptr Buf_pars)
                              (buf_ptr Buf_time))
                         @ replicate (shape inputs ! 1 - (shape inputs ! 1) div simd_size ev
                                        * simd_size ev)
                             (Scal (buf_ptr Buf_out) (buf_ptr Buf_in) (buf_ptr Buf_pars)
                                (buf_ptr Buf_time))
                    else [Scal (buf_ptr Buf_out) (buf_ptr Buf_in) (buf_ptr Buf_pars)
                            (buf_ptr Buf_time)]))"
proof -
  let ?S = "supplied inputs out pars time"
  let ?k = "kernel_state ev inputs outputs_opt out st4"
  have g: "zero_copy inputs out pars time =
     (list_all is_npy_array_carray ?S
      \<and> \<not> (\<exists>i j. i < j \<and> j < length ?S \<and> may_share2 (?S ! i) (?S ! j)))"
    unfolding zero_copy_supplied using may_share_memory_pairs [of ?S] by simp
  note s = call_Inr_state [OF assms]
  have k: "klog ?k = klog st"
    using convert_args_Inr(1) [OF assms(2)] by (rule klog_kernel_state)
  have st: "st' =
             (if zero_copy inputs out pars time
              then (if ndim inputs = 2
                    then multi_zero_copy ev (arr_data out) (arr_data inputs) (data_opt pars)
                           (data_opt time) (shape inputs ! 1) ?k
                    else invoke ev (Scal (arr_data out) (arr_data inputs) (data_opt pars)
                                      (data_opt time)) ?k)
              else (if ndim inputs = 2
                    then multi_buffered ev inputs out pars time (shape inputs ! 1) ?k
                    else single_buffered ev inputs out pars time ?k))"
    unfolding s by (simp add: eval_multi_def eval_single_def Let_def)
  have kl: "klog st' = klog st @
             (if zero_copy inputs out pars time
              then (if ndim inputs = 2
                    then map (\<lambda>k. Batch_s (ptr_add (arr_data out) (int (k * simd_size ev)))
                            (if 0 < nvars ev then ptr_add (arr_data inputs) (int (k * simd_size ev))
                             else Null)
                            (if 0 < nparams ev then ptr_add (data_opt pars) (int (k * simd_size ev))
                             else Null)
                            (if is_time_dependent ev
                             then ptr_add (data_opt time) (int (k * simd_size ev)) else Null)
                            (shape inputs ! 1))
                           [0..<(shape inputs ! 1) div simd_size ev]
                         @ map (\<lambda>k. Scal_s (ptr_add (arr_data out) (int k))
                            (if 0 < nvars ev then ptr_add (arr_data inputs) (int k) else Null)
                            (if 0 < nparams ev then ptr_add (data_opt pars) (int k) else Null)
                            (if is_time_dependent ev then ptr_add (data_opt time) (int k) else Null)
                            (shape inputs ! 1))
                           [(shape inputs ! 1) div simd_size ev * simd_size ev..<shape inputs ! 1]
                    else [Scal (arr_data out) (arr_data inputs) (data_opt pars) (data_opt time)])
              else (if ndim inputs = 2
                    then replicate ((shape inputs ! 1) div simd_size ev)
                           (Batch (buf_ptr Buf_out) (buf_ptr Buf_in) (buf_ptr Buf_pars)
                              (buf_ptr Buf_time))
                         @ replicate (shape inputs ! 1 - (shape inputs ! 1) div simd_size ev
                                        * simd_size ev)
                             (Scal (buf_ptr Buf_out) (buf_ptr Buf_in) (buf_ptr Buf_pars)
                                (buf_ptr Buf_time))
                    else [Scal (buf_ptr Buf_out) (buf_ptr Buf_in) (buf_ptr Buf_pars)
                            (buf_ptr Buf_time)]))"
    unfolding st
    by (simp add: klog_multi_zero_copy klog_invoke klog_multi_buffered klog_single_buffered k)
  from g st kl show ?thesis by (intro conjI)
qed

theorem zero_copy_gate_witness:
  "fst (call ex_env ex_cfunc (ex_arr 0 [2]) None None None ex_state)
     = Inr \<lparr>base = 2, offset = 0, shape = [1], strides = [1], dtype = 12, writeable = True\<rparr>
   \<and> zero_copy (ex_arr 0 [2])
        \<lparr>base = 2, offset = 0, shape = [1], strides = [1], dtype = 12, writeable = True\<rparr> None None
   \<and> klog (snd (call ex_env ex_cfunc (ex_arr 0 [2]) None None None ex_state))
       = [Scal (Ptr (Npy 2) 0) (Ptr (Npy 0) 0) Null Null]
   \<and> fst (call ex_env ex_cfunc (ex_arr 0 [2]) (Some (ex_arr 0 [1])) None None ex_state)
       = Inr (ex_arr 0 [1])
   \<and> \<not> zero_copy (ex_arr 0 [2]) (ex_arr 0 [1]) None None
   \<and> klog (snd (call ex_env ex_cfunc (ex_arr 0 [2]) (Some (ex_arr 0 [1])) None None ex_state))
       = [Scal (buf_ptr Buf_out) (buf_ptr Buf_in) (buf_ptr Buf_pars) (buf_ptr Buf_time)]
   \<and> fst (call ex_env ex_cfunc ex_strided (Some (ex_arr 1 [1])) None None ex_state)
       = Inr (ex_arr 1 [1])
   \<and> \<not> zero_copy ex_strided (ex_arr 1 [1]) None None
   \<and> klog (snd (call ex_env ex_cfunc ex_strided (Some (ex_arr 1 [1])) None None ex_state))
       = [Scal (buf_ptr Buf_out) (buf_ptr Buf_in) (buf_ptr Buf_pars) (buf_ptr Buf_time)]"
proof -
  let ?a = "call ex_env ex_cfunc (ex_arr 0 [2]) None None None ex_state"
  let ?o = "\<lparr>base = 2, offset = 0, shape = [1], strides = [1], dtype = 12, writeable = True\<rparr>"
  let ?b = "call ex_env ex_cfunc (ex_arr 0 [2]) (Some (ex_arr 0 [1])) None None ex_state"
  let ?c = "call ex_env ex_cfunc ex_strided (Some (ex_arr 1 [1])) None None ex_state"
  have kl: "klog ex_state = []" by (simp add: ex_state_def)
  \<comment> \<open>contiguous buffers that share no memory\<close>
  have fa: "fst ?a = Inr ?o" by (simp add: call_defs ex_defs Let_def store.simps)
  have a: "?a = (Inr ?o, snd ?a)" using fa by (metis prod.collapse)
  have ca: "convert_args ex_env ex_cfunc (ex_arr 0 [2]) None None None ex_state
      = Inr (ex_arr 0 [2], None, None, None, ex_state)"
    by (simp add: convert_args_def enforce_dtype_def enforce_dtype_opt_def ex_arr_def ex_cfunc_def)
  have za: "zero_copy (ex_arr 0 [2]) ?o None None"
    by (simp add: zero_copy_def is_npy_array_carray_def may_share2_def ex_arr_def)
  have na: "ndim (ex_arr 0 [2]) \<noteq> 2" by (simp add: ndim_def ex_arr_def)
  have ka: "klog (snd ?a) = [Scal (arr_data ?o) (arr_data (ex_arr 0 [2])) (data_opt None)
                               (data_opt None)]"
    using zero_copy_gate [OF a ca, THEN conjunct2, THEN conjunct2]
    by (simp only: za na kl if_True if_False append_Nil)
  \<comment> \<open>the outputs array overlaps the inputs\<close>
  have fb: "fst ?b = Inr (ex_arr 0 [1])" by (simp add: call_defs ex_defs Let_def store.simps)
  have b: "?b = (Inr (ex_arr 0 [1]), snd ?b)" using fb by (metis prod.collapse)
  have cb: "convert_args ex_env ex_cfunc (ex_arr 0 [2]) (Some (ex_arr 0 [1])) None None ex_state
      = Inr (ex_arr 0 [2], Some (ex_arr 0 [1]), None, None, ex_state)"
    by (simp add: convert_args_def enforce_dtype_def enforce_dtype_opt_def ex_arr_def ex_cfunc_def)
  have zb: "\<not> zero_copy (ex_arr 0 [2]) (ex_arr 0 [1]) None None"
    by (simp add: zero_copy_def is_npy_array_carray_def may_share2_def extent_lo_def
          extent_hi_def ex_arr_def)
  have kb: "klog (snd ?b)
      = [Scal (buf_ptr Buf_out) (buf_ptr Buf_in) (buf_ptr Buf_pars) (buf_ptr Buf_time)]"
    using zero_copy_gate [OF b cb, THEN conjunct2, THEN conjunct2]
    by (simp only: zb na kl if_True if_False append_Nil)
  \<comment> \<open>the inputs are not contiguous\<close>
  have fc: "fst ?c = Inr (ex_arr 1 [1])"
    by (simp add: call_defs ex_defs ex_strided_def Let_def store.simps)
  have c: "?c = (Inr (ex_arr 1 [1]), snd ?c)" using fc by (metis prod.collapse)
  have cc: "convert_args ex_env ex_cfunc ex_strided (Some (ex_arr 1 [1])) None None ex_state
      = Inr (ex_strided, Some (ex_arr 1 [1]), None, None, ex_state)"
    by (simp add: convert_args_def enforce_dtype_def enforce_dtype_opt_def ex_arr_def ex_cfunc_def
          ex_strided_def)
  have zcc: "\<not> zero_copy ex_strided (ex_arr 1 [1]) None None"
    by (simp add: zero_copy_def is_npy_array_carray_def ex_strided_def)
  have nc: "ndim ex_strided \<noteq> 2" by (simp add: ndim_def ex_strided_def)
  have kc: "klog (snd ?c)
      = [Scal (buf_ptr Buf_out) (buf_ptr Buf_in) (buf_ptr Buf_pars) (buf_ptr Buf_time)]"
    using zero_copy_gate [OF c cc, THEN conjunct2, THEN conjunct2]
    by (simp only: zcc nc kl if_True if_False append_Nil)
  have pa: "[Scal (arr_data ?o) (arr_data (ex_arr 0 [2])) (data_opt None) (data_opt None)]
      = [Scal (Ptr (Npy 2) 0) (Ptr (Npy 0) 0) Null Null]"
    by (simp add: arr_data_def data_opt_def ex_arr_def)
  from fa za ka [unfolded pa] fb zb kb fc zcc kc show ?thesis by (intro conjI)
qed

section \<open>The scratch vectors from construction on\<close>

lemma call_Inl_scratch:
  assumes "call env ev i oo p t st = (Inl e, st')"
  shows "scratch st' = scratch st"
  using call_Inl_stage [OF assms]
proof
  assume "\<not> fails_late env ev i oo p t st \<and> grows st st'"
  then show ?thesis by (simp add: grows_def)
next
  assume "fails_late env ev i oo p t st
            \<and> (\<exists>inputs outputs_opt pars time st4 out st5.
                 convert_args env ev i oo p t st = Inr (inputs, outputs_opt, pars, time, st4)
                 \<and> check_head ev inputs pars time t = None
                 \<and> prepare_outputs ev inputs outputs_opt st4 = (Inr out, st5)
                 \<and> st' = (if is_real ev then pyreal_ensure_array out (prec ev) st5 else st5))"
  then obtain inputs outputs_opt pars time st4 out st5 where
    c: "convert_args env ev i oo p t st = Inr (inputs, outputs_opt, pars, time, st4)"
    and po: "prepare_outputs ev inputs outputs_opt st4 = (Inr out, st5)"
    and st': "st' = (if is_real ev then pyreal_ensure_array out (prec ev) st5 else st5)"
    by blast
  have "grows st st5"
    using convert_args_Inr(1) [OF c] prepare_outputs_state [OF po] grows_trans by blast
  with st' show ?thesis by (simp add: scratch_pyreal_ensure_array grows_def)
qed

lemma call_Inr_lengths:
  assumes "call env ev i oo p t st = (Inr out, st')"
  shows "length (scratch st' b) = length (scratch st b)"
proof -
  obtain x where ca: "convert_args env ev i oo p t st = Inr x"
    using assms by (auto simp: call_def split: sum.splits)
  obtain inputs outputs_opt pars time st4 where x: "x = (inputs, outputs_opt, pars, time, st4)"
    by (cases x)
  note c = ca [unfolded x]
  let ?k = "kernel_state ev inputs outputs_opt out st4"
  let ?R = "range Scratch \<union> {Npy (base out)}"
  have rs: "range Scratch \<subseteq> ?R" "Npy (base out) \<in> ?R" by auto
  have "only_stores ?R ?k st'"
    unfolding call_Inr_state [OF assms c]
    using eval_multi_only_stores [OF rs] eval_single_only_stores [OF rs]
    by (cases "ndim inputs = 2") simp_all
  then have "length (scratch st' b) = length (scratch ?k b)" by (simp add: only_stores_def)
  with klog_kernel_state(2) [OF convert_args_Inr(1) [OF c]] show ?thesis by simp
qed

lemma call_zero_copy_scratch:
  assumes c: "call env ev i oo p t st = (Inr out, st')"
    and ca: "convert_args env ev i oo p t st = Inr (inputs, outputs_opt, pars, time, st4)"
    and zc: "zero_copy inputs out pars time"
  shows "scratch st' = scratch st"
proof -
  let ?k = "kernel_state ev inputs outputs_opt out st4"
  have "st' = (if ndim inputs = 2 then eval_multi ev True inputs out pars time ?k
               else eval_single ev True inputs out pars time ?k)"
    using call_Inr_state [OF c ca] zc by simp
  then have "scratch st' = scratch ?k" by (simp only: zero_copy_eval_scratch)
  with klog_kernel_state(2) [OF convert_args_Inr(1) [OF ca]] show ?thesis by simp
qed

text \<open>
  C8: at construction the four scratch vectors have \<open>nvars * W\<close>, \<open>nouts * W\<close>,
  \<open>nparams * W\<close> and \<open>W\<close> slots, the products not overflowing 32 bits (which the compilation
  of the function guarantees), and for \<^verbatim>\<open>mppp::real\<close> every slot is at the working precision.
  No call changes the length of a scratch vector. A call that fails, and a call that runs the
  zero-copy path, leave the scratch vectors as they are. After a successful call the four
  vectors have their sizes and, for \<^verbatim>\<open>mppp::real\<close>, every slot is at the working precision
  (the kernels of such an evaluator producing values at that precision). So the property
  holds after any number of calls.
\<close>

theorem scratch_buffers_invariant:
  "(sizes_fit ev \<longrightarrow> scratch_ok ev (st0\<lparr>scratch := init_scratch ev\<rparr>))
   \<and> (call env ev i oo p t st = (r, st') \<longrightarrow>
        (\<forall>b. length (scratch st' b) = length (scratch st b))
        \<and> ((\<exists>e. r = Inl e) \<longrightarrow> scratch st' = scratch st)
        \<and> (\<forall>out inputs outputs_opt pars time st4.
              r = Inr out
              \<and> convert_args env ev i oo p t st = Inr (inputs, outputs_opt, pars, time, st4)
              \<and> zero_copy inputs out pars time \<longrightarrow> scratch st' = scratch st)
        \<and> ((\<exists>out. r = Inr out) \<and> cfunc_wf ev \<and> scratch_ok ev st
             \<and> (is_real ev \<longrightarrow> kernels_at_prec ev) \<and> arr_wf i
             \<and> (\<forall>a. p = Some a \<longrightarrow> arr_wf a) \<and> (\<forall>a. t = Some (TimeIterable a) \<longrightarrow> arr_wf a)
           \<longrightarrow> scratch_ok ev st'))"
proof (intro conjI impI)
  assume "sizes_fit ev"
  then show "scratch_ok ev (st0\<lparr>scratch := init_scratch ev\<rparr>)" by (rule init_scratch_ok)
next
  assume c: "call env ev i oo p t st = (r, st')"
  show "\<forall>b. length (scratch st' b) = length (scratch st b)"
  proof (cases r)
    case (Inl e)
    with c show ?thesis by (simp add: call_Inl_scratch)
  next
    case (Inr out)
    with c show ?thesis by (simp add: call_Inr_lengths)
  qed
next
  assume c: "call env ev i oo p t st = (r, st')" and "\<exists>e. r = Inl e"
  then show "scratch st' = scratch st" by (auto dest: call_Inl_scratch)
next
  assume c: "call env ev i oo p t st = (r, st')"
  show "\<forall>out inputs outputs_opt pars time st4.
              r = Inr out
              \<and> convert_args env ev i oo p t st = Inr (inputs, outputs_opt, pars, time, st4)
              \<and> zero_copy inputs out pars time \<longrightarrow> scratch st' = scratch st"
    using c by (auto dest: call_zero_copy_scratch)
next
  assume c: "call env ev i oo p t st = (r, st')"
    and a: "(\<exists>out. r = Inr out) \<and> cfunc_wf ev \<and> scratch_ok ev st
             \<and> (is_real ev \<longrightarrow> kernels_at_prec ev) \<and> arr_wf i
             \<and> (\<forall>a. p = Some a \<longrightarrow> arr_wf a) \<and> (\<forall>a. t = Some (TimeIterable a) \<longrightarrow> arr_wf a)"
  then obtain out where "call env ev i oo p t st = (Inr out, st')" by auto
  with a show "scratch_ok ev st'"
    using call_keeps_scratch_ok [of ev st i p t env oo out st'] by blast
qed

theorem scratch_buffers_invariant_witness:
  "sizes_fit ex_real_cfunc \<and> cfunc_wf ex_real_cfunc \<and> scratch_ok ex_real_cfunc ex_real_state
   \<and> kernels_at_prec ex_real_cfunc \<and> arr_wf (ex_real_arr 0 [1])
   \<and> fst (call ex_env ex_real_cfunc (ex_real_arr 0 [1]) None (Some (ex_real_arr 0 [1])) None
             ex_real_state)
       = Inr \<lparr>base = 3, offset = 0, shape = [1], strides = [1], dtype = 20, writeable = True\<rparr>
   \<and> scratch (snd (call ex_env ex_real_cfunc (ex_real_arr 0 [1]) None
                      (Some (ex_real_arr 0 [1])) None ex_real_state)) Buf_out = [Num 100 2]
   \<and> scratch_ok ex_real_cfunc
        (snd (call ex_env ex_real_cfunc (ex_real_arr 0 [1]) None (Some (ex_real_arr 0 [1])) None
                ex_real_state))
   \<and> fst (call ex_env ex_real_cfunc (ex_real_arr 0 [1]) None (Some (ex_real_arr 2 [1])) None
             ex_real_state)
       = Inr \<lparr>base = 3, offset = 0, shape = [1], strides = [1], dtype = 20, writeable = True\<rparr>
   \<and> zero_copy (ex_real_arr 0 [1])
        \<lparr>base = 3, offset = 0, shape = [1], strides = [1], dtype = 20, writeable = True\<rparr>
        (Some (ex_real_arr 2 [1])) None
   \<and> scratch (snd (call ex_env ex_real_cfunc (ex_real_arr 0 [1]) None
                      (Some (ex_real_arr 2 [1])) None ex_real_state)) = scratch ex_real_state
   \<and> fst (call ex_env ex_real_cfunc (ex_real_arr 0 [1]) None (Some (ex_real_arr 2 [2])) None
             ex_real_state) = Inl SizeMismatch
   \<and> scratch (snd (call ex_env ex_real_cfunc (ex_real_arr 0 [1]) None
                      (Some (ex_real_arr 2 [2])) None ex_real_state)) = scratch ex_real_state"
proof -
  let ?c = "call ex_env ex_real_cfunc (ex_real_arr 0 [1]) None (Some (ex_real_arr 0 [1])) None
              ex_real_state"
  let ?z = "call ex_env ex_real_cfunc (ex_real_arr 0 [1]) None (Some (ex_real_arr 2 [1])) None
              ex_real_state"
  let ?e = "call ex_env ex_real_cfunc (ex_real_arr 0 [1]) None (Some (ex_real_arr 2 [2])) None
              ex_real_state"
  let ?out = "\<lparr>base = 3, offset = 0, shape = [1], strides = [1], dtype = 20, writeable = True\<rparr>"
  have sf: "sizes_fit ex_real_cfunc" by (simp add: sizes_fit_def ex_real_cfunc_def)
  have wf: "cfunc_wf ex_real_cfunc" by (simp add: cfunc_wf_def ex_real_cfunc_def)
  have eq: "ex_real_state = ex_real_state\<lparr>scratch := init_scratch ex_real_cfunc\<rparr>"
    by (simp add: ex_real_state_def)
  have ok: "scratch_ok ex_real_cfunc ex_real_state"
    using scratch_buffers_invariant [of ex_real_cfunc ex_real_state, THEN conjunct1] sf eq
    by simp
  have kp: "kernels_at_prec ex_real_cfunc"
    by (simp add: kernels_at_prec_def ex_real_cfunc_def ex_real_add_def)
  have aw: "arr_wf (ex_real_arr 0 [1])" by (simp add: arr_wf_def ex_real_arr_def)
  \<comment> \<open>the parameters are the inputs array: the buffered path runs\<close>
  have f: "fst ?c = Inr ?out"
    by (simp add: call_defs ex_real_defs Let_def store.simps)
  have b: "scratch (snd ?c) Buf_out = [Num 100 2]"
    by (simp add: call_defs ex_real_defs Let_def store.simps invoke.simps)
  have c: "?c = (Inr ?out, snd ?c)" using f by (metis prod.collapse)
  have k: "scratch_ok ex_real_cfunc (snd ?c)"
    using scratch_buffers_invariant [of ex_real_cfunc ex_real_state ex_env "ex_real_arr 0 [1]"
        None "Some (ex_real_arr 0 [1])" None ex_real_state "Inr ?out" "snd ?c", THEN conjunct2]
      wf ok kp aw c by simp
  \<comment> \<open>separate contiguous buffers: the zero-copy path runs\<close>
  have fz: "fst ?z = Inr ?out"
    by (simp add: call_defs ex_real_defs Let_def store.simps)
  have z: "?z = (Inr ?out, snd ?z)" using fz by (metis prod.collapse)
  obtain x where cz: "convert_args ex_env ex_real_cfunc (ex_real_arr 0 [1]) None
      (Some (ex_real_arr 2 [1])) None ex_real_state
      = Inr (ex_real_arr 0 [1], None, Some (ex_real_arr 2 [1]), None, x)"
    by (simp add: convert_args_def enforce_dtype_def enforce_dtype_opt_def ex_real_defs)
  have zc: "zero_copy (ex_real_arr 0 [1]) ?out (Some (ex_real_arr 2 [1])) None"
    by (simp add: zero_copy_def is_npy_array_carray_def may_share2_def ex_real_arr_def)
  have kz: "scratch (snd ?z) = scratch ex_real_state"
    using scratch_buffers_invariant [of ex_real_cfunc ex_real_state ex_env "ex_real_arr 0 [1]"
        None "Some (ex_real_arr 2 [1])" None ex_real_state "Inr ?out" "snd ?z", THEN conjunct2]
      z cz zc by blast
  \<comment> \<open>a parameters array of the wrong size: the call fails\<close>
  have fe: "fst ?e = Inl SizeMismatch"
    by (simp add: call_defs ex_real_defs Let_def store.simps)
  have e: "?e = (Inl SizeMismatch, snd ?e)" using fe by (metis prod.collapse)
  have ke: "scratch (snd ?e) = scratch ex_real_state"
    using scratch_buffers_invariant [of ex_real_cfunc ex_real_state ex_env "ex_real_arr 0 [1]"
        None "Some (ex_real_arr 2 [2])" None ex_real_state "Inl SizeMismatch" "snd ?e",
        THEN conjunct2] e by blast
  from sf wf ok kp aw f b k fz zc kz fe ke show ?thesis by (intro conjI)
qed

section \<open>A single evaluation returns the reference result\<close>

text \<open>The validation of a successful single evaluation establishes \<open>single_shapes\<close> for the
  arrays that are evaluated.\<close>

lemma call_single_shapes:
  assumes ok: "call env ev i oo p t st = (Inr out, st')"
    and ca: "convert_args env ev i oo p t st = Inr (inputs, outputs_opt, pars, time, st4)"
    and one: "ndim i = 1"
  shows "single_shapes ev inputs out pars time" and "ndim inputs = 1"
proof -
  from ok obtain inputs' outputs_opt' pars' time' st4' st5 st6 where
    c': "convert_args env ev i oo p t st = Inr (inputs', outputs_opt', pars', time', st4')"
    and h': "check_head ev inputs' pars' time' t = None"
    and po': "prepare_outputs ev inputs' outputs_opt' st4' = (Inr out, st5)"
    and cp': "check_pars ev inputs' pars' st6 = None"
    and ct': "check_time ev inputs' time' st6 = None"
    by (rule call_Inr)
  from c' ca have e: "inputs' = inputs" "outputs_opt' = outputs_opt" "pars' = pars"
    "time' = time" "st4' = st4" by simp_all
  note h = h' [unfolded e] and po = po' [unfolded e] and cp = cp' [unfolded e]
    and ct = ct' [unfolded e]
  note r = convert_args_Inr [OF ca]
  show ni: "ndim inputs = 1" using r(2) one by (simp add: conv_of_def ndim_def)
  have h': "\<not> (0 < nparams ev \<and> pars = None)" "\<not> (is_time_dependent ev \<and> time = None)"
    "shape inputs ! 0 = nvars ev" "time \<noteq> None \<longrightarrow> holds_scalar t"
    using h ni by (auto simp: check_head_def split: if_splits)
  have si: "shape inputs = [nvars ev]" using ni h'(3) by (rule shape_1d)
  note o = prepare_outputs_Inr [OF po disjI1 [OF ni]]
  have so: "shape out = [nouts ev]" using o(1,2) ni by (auto intro: shape_1d)
  have sp: "case pars of Some q \<Rightarrow> shape q = [nparams ev] | None \<Rightarrow> True"
  proof (cases pars)
    case (Some q)
    with cp ni have "ndim q = 1" "shape q ! 0 = nparams ev"
      by (auto simp: check_pars_def split: if_splits)
    with Some show ?thesis by (auto intro: shape_1d)
  qed simp
  have stm: "case time of Some q \<Rightarrow> shape q = [1] | None \<Rightarrow> True"
  proof (cases time)
    case (Some q)
    with h'(4) obtain v where "t = Some (TimeScalar v)"
      by (cases t rule: holds_scalar.cases) auto
    with r(7) Some show ?thesis by auto
  qed simp
  show "single_shapes ev inputs out pars time"
    using si so sp stm h'(1,2) by (auto simp: single_shapes_def)
qed

lemma single_buffered_contents:
  fixes st :: "'v state"
  assumes w: "0 < simd_size ev" and sz: "scratch_sized ev st"
    and sh: "single_shapes ev inputs out pars time"
    and wf: "list_all arr_wf (supplied inputs out pars time)"
    and d: "distinct (arr_ptrs out)"
  shows "contents (single_buffered ev inputs out pars time st) out
    = single_eval_spec ev (contents st inputs) (opt_contents st pars) (opt_contents st time)"
proof -
  have so: "shape out = [nouts ev]" using sh by (simp add: single_shapes_def)
  from wf have ws: "arr_wf inputs" "arr_wf out" "\<forall>a. pars = Some a \<longrightarrow> arr_wf a"
    "\<forall>a. time = Some a \<longrightarrow> arr_wf a" by (simp_all add: supplied_all)
  note inj = elem1_inj [OF so ws(2) d]
  note v = single_buffered_values(1) [OF w sz sh inj]
  have "contents (single_buffered ev inputs out pars time st) out
      = map (\<lambda>j. load (single_buffered ev inputs out pars time st) (elem1 out j))
          [0..<nouts ev]"
    using so ws(2) by (rule contents_1d)
  also have "\<dots> = single_eval_spec ev (contents st inputs) (opt_contents st pars)
                     (opt_contents st time)"
    unfolding single_spec_values [OF sh ws(1,3,4)] using v by simp
  finally show ?thesis .
qed

lemma single_paths_contents:
  fixes st :: "'v state"
  assumes w: "0 < simd_size ev" and sz: "scratch_sized ev st"
    and sh: "single_shapes ev inputs out pars time"
    and c: "list_all is_npy_array_carray (supplied inputs out pars time)"
  shows "contents (invoke ev (Scal (arr_data out) (arr_data inputs) (data_opt pars)
                                (data_opt time)) st) out
      = single_eval_spec ev (contents st inputs) (opt_contents st pars) (opt_contents st time)"
    and "contents (single_buffered ev inputs out pars time st) out
      = single_eval_spec ev (contents st inputs) (opt_contents st pars) (opt_contents st time)"
proof -
  have so: "shape out = [nouts ev]" using sh by (simp add: single_shapes_def)
  from c have cs: "is_npy_array_carray inputs" "is_npy_array_carray out"
    "\<forall>a. pars = Some a \<longrightarrow> is_npy_array_carray a"
    "\<forall>a. time = Some a \<longrightarrow> is_npy_array_carray a" by (simp_all add: supplied_all)
  have wf: "list_all arr_wf (supplied inputs out pars time)"
    using cs by (auto simp: supplied_all intro: carray_wf)
  have d: "distinct (arr_ptrs out)" using so cs(2) by (rule carray_distinct)
  show "contents (invoke ev (Scal (arr_data out) (arr_data inputs) (data_opt pars)
                                (data_opt time)) st) out
      = single_eval_spec ev (contents st inputs) (opt_contents st pars) (opt_contents st time)"
    using sh cs by (rule single_zero_copy_values)
  show "contents (single_buffered ev inputs out pars time st) out
      = single_eval_spec ev (contents st inputs) (opt_contents st pars) (opt_contents st time)"
    using w sz sh wf d by (rule single_buffered_contents)
qed

lemma call_single_result:
  fixes st :: "'v::zero state"
  assumes wf: "cfunc_wf ev" and sz: "scratch_sized ev st"
    and c: "call env ev i oo p t st = (Inr out, st')"
    and ca: "convert_args env ev i oo p t st = Inr (inputs, outputs_opt, pars, time, st4)"
    and one: "ndim i = 1"
    and aw: "list_all arr_wf (supplied inputs out pars time)"
    and d: "distinct (arr_ptrs out)"
  shows "contents st' out
    = single_eval_spec ev (contents (kernel_state ev inputs outputs_opt out st4) inputs)
        (opt_contents (kernel_state ev inputs outputs_opt out st4) pars)
        (opt_contents (kernel_state ev inputs outputs_opt out st4) time)"
proof -
  let ?k = "kernel_state ev inputs outputs_opt out st4"
  have w: "0 < simd_size ev" using wf by (simp add: cfunc_wf_def)
  note sh = call_single_shapes [OF c ca one]
  have "scratch ?k = scratch st"
    using convert_args_Inr(1) [OF ca] by (rule klog_kernel_state(2))
  with sz have szk: "scratch_sized ev ?k" by (simp add: scratch_sized_def)
  have st': "st' = eval_single ev (zero_copy inputs out pars time) inputs out pars time ?k"
    using call_Inr_state [OF c ca] sh(2) by simp
  show ?thesis
  proof (cases "zero_copy inputs out pars time")
    case True
    then have "list_all is_npy_array_carray (supplied inputs out pars time)"
      by (simp add: zero_copy_supplied)
    from single_paths_contents(1) [OF w szk sh(1) this] True st' show ?thesis
      by (simp add: eval_single_def)
  next
    case False
    from single_buffered_contents [OF w szk sh(1) aw d] False st' show ?thesis
      by (simp add: eval_single_def)
  qed
qed

text \<open>
  C2: a single evaluation whose arrays have the validated shapes. The buffered path (gather
  into the scratch vectors, one invocation of the scalar kernel on them, scatter) leaves in the
  outputs array the outputs of the scalar kernel on the contents of the inputs, parameters and
  time buffers, whatever the strides of the buffers and whether or not they overlap (the slots
  of the outputs array being pairwise distinct). The zero-copy path (one invocation of the
  scalar kernel on the caller's buffers) leaves the same contents whenever the buffers are
  C-contiguous. So the contents of the outputs array are determined by the contents of the
  buffers alone, and where the zero-copy path can run the two paths agree slot for slot.
  Accordingly, the array returned by a successful single-evaluation call holds that result,
  whichever path the call has taken.
\<close>

theorem single_paths_agree:
  assumes "cfunc_wf ev" and "scratch_sized ev st"
  shows "(single_shapes ev inputs outputs pars time
            \<and> list_all arr_wf (supplied inputs outputs pars time) \<and> distinct (arr_ptrs outputs)
            \<longrightarrow> contents (eval_single ev False inputs outputs pars time st) outputs
                 = single_eval_spec ev (contents st inputs) (opt_contents st pars)
                     (opt_contents st time))
         \<and> (single_shapes ev inputs outputs pars time
            \<and> list_all is_npy_array_carray (supplied inputs outputs pars time)
            \<longrightarrow> contents (eval_single ev True inputs outputs pars time st) outputs
                 = single_eval_spec ev (contents st inputs) (opt_contents st pars)
                     (opt_contents st time)
               \<and> contents (eval_single ev True inputs outputs pars time st) outputs
                 = contents (eval_single ev False inputs outputs pars time st) outputs)
         \<and> klog (eval_single ev True inputs outputs pars time st)
             = klog st @ [Scal (arr_data outputs) (arr_data inputs) (data_opt pars) (data_opt time)]
         \<and> klog (eval_single ev False inputs outputs pars time st)
             = klog st @ [Scal (buf_ptr Buf_out) (buf_ptr Buf_in) (buf_ptr Buf_pars)
                            (buf_ptr Buf_time)]
         \<and> (call env ev i oo p t st = (Inr out, st')
            \<and> convert_args env ev i oo p t st = Inr (inputs', outputs_opt, pars', time', st4)
            \<and> ndim i = 1
            \<and> list_all arr_wf (supplied inputs' out pars' time') \<and> distinct (arr_ptrs out)
            \<longrightarrow> contents st' out
                 = single_eval_spec ev
                     (contents (kernel_state ev inputs' outputs_opt out st4) inputs')
                     (opt_contents (kernel_state ev inputs' outputs_opt out st4) pars')
                     (opt_contents (kernel_state ev inputs' outputs_opt out st4) time'))"
proof -
  let ?R = "single_eval_spec ev (contents st inputs) (opt_contents st pars) (opt_contents st time)"
  have w: "0 < simd_size ev" using assms(1) by (simp add: cfunc_wf_def)
  have 1: "single_shapes ev inputs outputs pars time
            \<and> list_all arr_wf (supplied inputs outputs pars time) \<and> distinct (arr_ptrs outputs)
            \<longrightarrow> contents (eval_single ev False inputs outputs pars time st) outputs = ?R"
    using single_buffered_contents [OF w assms(2)] by (simp add: eval_single_def)
  have 2: "single_shapes ev inputs outputs pars time
            \<and> list_all is_npy_array_carray (supplied inputs outputs pars time)
            \<longrightarrow> contents (eval_single ev True inputs outputs pars time st) outputs = ?R
               \<and> contents (eval_single ev True inputs outputs pars time st) outputs
                 = contents (eval_single ev False inputs outputs pars time st) outputs"
    using single_paths_contents [OF w assms(2)] by (simp add: eval_single_def)
  have 3: "klog (eval_single ev True inputs outputs pars time st)
             = klog st @ [Scal (arr_data outputs) (arr_data inputs) (data_opt pars) (data_opt time)]"
    by (simp add: eval_single_def klog_invoke)
  have 4: "klog (eval_single ev False inputs outputs pars time st)
             = klog st @ [Scal (buf_ptr Buf_out) (buf_ptr Buf_in) (buf_ptr Buf_pars)
                            (buf_ptr Buf_time)]"
    by (simp add: eval_single_def klog_single_buffered)
  have 5: "call env ev i oo p t st = (Inr out, st')
            \<and> convert_args env ev i oo p t st = Inr (inputs', outputs_opt, pars', time', st4)
            \<and> ndim i = 1
            \<and> list_all arr_wf (supplied inputs' out pars' time') \<and> distinct (arr_ptrs out)
            \<longrightarrow> contents st' out
                 = single_eval_spec ev
                     (contents (kernel_state ev inputs' outputs_opt out st4) inputs')
                     (opt_contents (kernel_state ev inputs' outputs_opt out st4) pars')
                     (opt_contents (kernel_state ev inputs' outputs_opt out st4) time')"
    using call_single_result [OF assms] by blast
  from 1 2 3 4 5 show ?thesis by (intro conjI)
qed

theorem single_paths_agree_witness:
  "cfunc_wf ex_cfunc \<and> scratch_sized ex_cfunc ex_state
   \<and> single_shapes ex_cfunc ex_strided (ex_arr 1 [1]) None None
   \<and> list_all arr_wf (supplied ex_strided (ex_arr 1 [1]) None None)
   \<and> distinct (arr_ptrs (ex_arr 1 [1]))
   \<and> \<not> is_npy_array_carray ex_strided
   \<and> contents ex_state ex_strided = [Num 0 1, Num 0 3]
   \<and> contents (eval_single ex_cfunc False ex_strided (ex_arr 1 [1]) None None ex_state)
        (ex_arr 1 [1]) = [Num 0 4]
   \<and> single_shapes ex_cfunc (ex_arr 0 [2]) (ex_arr 1 [1]) None None
   \<and> list_all is_npy_array_carray (supplied (ex_arr 0 [2]) (ex_arr 1 [1]) None None)
   \<and> contents ex_state (ex_arr 0 [2]) = [Num 0 1, Num 0 2]
   \<and> contents (eval_single ex_cfunc True (ex_arr 0 [2]) (ex_arr 1 [1]) None None ex_state)
        (ex_arr 1 [1]) = [Num 0 3]
   \<and> contents (eval_single ex_cfunc False (ex_arr 0 [2]) (ex_arr 1 [1]) None None ex_state)
        (ex_arr 1 [1]) = [Num 0 3]
   \<and> fst (call ex_env ex_cfunc ex_strided (Some (ex_arr 1 [1])) None None ex_state)
       = Inr (ex_arr 1 [1])
   \<and> contents (snd (call ex_env ex_cfunc ex_strided (Some (ex_arr 1 [1])) None None ex_state))
        (ex_arr 1 [1]) = [Num 0 4]"
proof -
  have wf: "cfunc_wf ex_cfunc" by (simp add: cfunc_wf_def ex_cfunc_def)
  have sz: "scratch_sized ex_cfunc ex_state"
    by (simp add: scratch_sized_def ex_state_def ex_cfunc_def init_scratch_def)
  \<comment> \<open>inputs with a stride of two elements: only the buffered path can run\<close>
  have sh1: "single_shapes ex_cfunc ex_strided (ex_arr 1 [1]) None None"
    by (simp add: single_shapes_def ex_cfunc_def ex_arr_def ex_strided_def)
  have aw: "list_all arr_wf (supplied ex_strided (ex_arr 1 [1]) None None)"
    by (simp add: supplied_def arr_wf_def ex_arr_def ex_strided_def)
  have d: "distinct (arr_ptrs (ex_arr 1 [1]))"
    by (simp add: arr_ptrs_def ex_arr_def)
  have nc: "\<not> is_npy_array_carray ex_strided"
    by (simp add: is_npy_array_carray_def ex_strided_def)
  have c1: "contents ex_state ex_strided = [Num 0 1, Num 0 3]"
    by (simp add: contents_def arr_ptrs_def arr_data_def ex_strided_def ex_state_def ex_heap_def
          upt_rec)
  have r1: "single_eval_spec ex_cfunc [Num 0 1, Num 0 3] (opt_contents ex_state None)
              (opt_contents ex_state None) = [Num 0 4]"
    by (simp add: single_eval_spec_def ex_cfunc_def ex_add_def num_val_def)
  from single_paths_agree [OF wf sz] sh1 aw d
  have "contents (eval_single ex_cfunc False ex_strided (ex_arr 1 [1]) None None ex_state)
        (ex_arr 1 [1])
      = single_eval_spec ex_cfunc (contents ex_state ex_strided) (opt_contents ex_state None)
          (opt_contents ex_state None)" by blast
  then have v1: "contents (eval_single ex_cfunc False ex_strided (ex_arr 1 [1]) None None
        ex_state) (ex_arr 1 [1]) = [Num 0 4]" unfolding c1 r1 .
  \<comment> \<open>contiguous inputs: both paths\<close>
  have sh2: "single_shapes ex_cfunc (ex_arr 0 [2]) (ex_arr 1 [1]) None None"
    by (simp add: single_shapes_def ex_cfunc_def ex_arr_def)
  have ca: "list_all is_npy_array_carray (supplied (ex_arr 0 [2]) (ex_arr 1 [1]) None None)"
    by (simp add: supplied_def is_npy_array_carray_def ex_arr_def)
  have c2: "contents ex_state (ex_arr 0 [2]) = [Num 0 1, Num 0 2]"
    by (simp add: contents_def arr_ptrs_def arr_data_def ex_arr_def ex_state_def ex_heap_def
          upt_rec)
  have r2: "single_eval_spec ex_cfunc [Num 0 1, Num 0 2] (opt_contents ex_state None)
              (opt_contents ex_state None) = [Num 0 3]"
    by (simp add: single_eval_spec_def ex_cfunc_def ex_add_def num_val_def)
  from single_paths_agree [OF wf sz] sh2 ca
  have e1: "contents (eval_single ex_cfunc True (ex_arr 0 [2]) (ex_arr 1 [1]) None None ex_state)
        (ex_arr 1 [1])
      = single_eval_spec ex_cfunc (contents ex_state (ex_arr 0 [2])) (opt_contents ex_state None)
          (opt_contents ex_state None)"
    and e2: "contents (eval_single ex_cfunc True (ex_arr 0 [2]) (ex_arr 1 [1]) None None ex_state)
        (ex_arr 1 [1])
      = contents (eval_single ex_cfunc False (ex_arr 0 [2]) (ex_arr 1 [1]) None None ex_state)
        (ex_arr 1 [1])" by blast+
  from e1 have v2: "contents (eval_single ex_cfunc True (ex_arr 0 [2]) (ex_arr 1 [1]) None None
        ex_state) (ex_arr 1 [1]) = [Num 0 3]" unfolding c2 r2 .
  from e2 [symmetric] v2 have v3: "contents (eval_single ex_cfunc False (ex_arr 0 [2])
        (ex_arr 1 [1]) None None ex_state) (ex_arr 1 [1]) = [Num 0 3]" by (rule trans)
  \<comment> \<open>a call with the strided inputs\<close>
  let ?c = "call ex_env ex_cfunc ex_strided (Some (ex_arr 1 [1])) None None ex_state"
  have f: "fst ?c = Inr (ex_arr 1 [1])"
    by (simp add: call_defs ex_defs ex_strided_def Let_def store.simps)
  have c: "?c = (Inr (ex_arr 1 [1]), snd ?c)" using f by (metis prod.collapse)
  have cc: "convert_args ex_env ex_cfunc ex_strided (Some (ex_arr 1 [1])) None None ex_state
      = Inr (ex_strided, Some (ex_arr 1 [1]), None, None, ex_state)"
    by (simp add: convert_args_def enforce_dtype_def enforce_dtype_opt_def ex_arr_def ex_cfunc_def
          ex_strided_def)
  have n1: "ndim ex_strided = 1" by (simp add: ndim_def ex_strided_def)
  have ks: "kernel_state ex_cfunc ex_strided (Some (ex_arr 1 [1])) (ex_arr 1 [1]) ex_state
      = ex_state"
    by (simp add: kernel_state_def prepare_outputs_def ex_cfunc_def ex_arr_def ex_strided_def
          ndim_def Let_def)
  from single_paths_agree [OF wf sz] c cc n1 aw d
  have "contents (snd ?c) (ex_arr 1 [1])
      = single_eval_spec ex_cfunc
          (contents (kernel_state ex_cfunc ex_strided (Some (ex_arr 1 [1])) (ex_arr 1 [1])
                       ex_state) ex_strided)
          (opt_contents (kernel_state ex_cfunc ex_strided (Some (ex_arr 1 [1])) (ex_arr 1 [1])
                       ex_state) None)
          (opt_contents (kernel_state ex_cfunc ex_strided (Some (ex_arr 1 [1])) (ex_arr 1 [1])
                       ex_state) None)" by blast
  then have v4: "contents (snd ?c) (ex_arr 1 [1]) = [Num 0 4]" unfolding ks c1 r1 .
  from wf sz sh1 aw d nc c1 v1 sh2 ca c2 v2 v3 f v4 show ?thesis by (intro conjI)
qed

section \<open>An outputs array of another dtype is replaced\<close>


end
